theory Spec2Isabelle
  imports Main
begin

section \<open>Paths and the directory tree\<close>

text \<open>
  The validator only reads the file system. A tree of named entries stands for it; a
  directory lists its entries in the order the operating system reports them. A
  \<^verbatim>\<open>pathlib.Path\<close> is the list of its components below the root of the tree, and
  \<^verbatim>\<open>p / name\<close> appends one component. Symbolic links are outside the model. Names are
  HOL strings, that is, sequences of code points below 256.
\<close>

datatype node = File | Dir "(string \<times> node) list"

type_synonym path = "string list"

datatype error =
    FileNotFoundError
  | NotADirectoryError
  | UnicodeDecodeError
  | JSONDecodeError
  | RecursionError
  | KeyError
  | TypeError
  | ValueError
  | ReferenceLoadError  \<comment> \<open>named by the specification only; no code path builds it\<close>

fun resolve :: "node \<Rightarrow> path \<Rightarrow> node option" where
  "resolve n [] = Some n"
| "resolve File (x # xs) = None"
| "resolve (Dir es) (x # xs) =
     (case map_of es x of None \<Rightarrow> None | Some n \<Rightarrow> resolve n xs)"

definition exists :: "node \<Rightarrow> path \<Rightarrow> bool" where
  "exists fs p = (resolve fs p \<noteq> None)"

definition is_dir :: "node \<Rightarrow> path \<Rightarrow> bool" where
  "is_dir fs p = (case resolve fs p of Some (Dir es) \<Rightarrow> True | _ \<Rightarrow> False)"

definition iterdir :: "node \<Rightarrow> path \<Rightarrow> error + path list" where
  "iterdir fs p =
     (case resolve fs p of
        None \<Rightarrow> Inl FileNotFoundError
      | Some File \<Rightarrow> Inl NotADirectoryError
      | Some (Dir es) \<Rightarrow> Inr (map (\<lambda>e. p @ [fst e]) es))"

definition name :: "path \<Rightarrow> string" where
  "name p = (if p = [] then [] else last p)"

section \<open>Regular expressions as the validator uses them\<close>

text \<open>
  Only the shapes that occur in the source are modelled: literals, alternation,
  sequence, \<^verbatim>\<open>\d+\<close> and \<^verbatim>\<open>.*\<close>. \<open>residuals r s\<close> lists what is left of \<open>s\<close> after each
  way of matching \<open>r\<close> at its start, in the order a backtracking matcher tries them.
  For code points below 256 the class \<^verbatim>\<open>\d\<close> is exactly the ten ASCII digits.
\<close>

datatype regex =
    RLit string
  | RAlt "regex list"
  | RSeq regex regex
  | RDigits
  | RAnyStar

definition is_digit :: "char \<Rightarrow> bool" where
  "is_digit c = (c \<in> set ''0123456789'')"

fun digit_residuals :: "string \<Rightarrow> string list" where
  "digit_residuals [] = []"
| "digit_residuals (c # cs) = (if is_digit c then digit_residuals cs @ [cs] else [])"

fun any_residuals :: "string \<Rightarrow> string list" where
  "any_residuals [] = [[]]"
| "any_residuals (c # cs) = any_residuals cs @ [c # cs]"

fun strip_prefix :: "string \<Rightarrow> string \<Rightarrow> string option" where
  "strip_prefix [] s = Some s"
| "strip_prefix (a # as) [] = None"
| "strip_prefix (a # as) (c # cs) = (if a = c then strip_prefix as cs else None)"

fun residuals :: "regex \<Rightarrow> string \<Rightarrow> string list" where
  "residuals (RLit l) s = (case strip_prefix l s of None \<Rightarrow> [] | Some r \<Rightarrow> [r])"
| "residuals (RAlt rs) s = concat (map (\<lambda>r. residuals r s) rs)"
| "residuals (RSeq a b) s = concat (map (residuals b) (residuals a s))"
| "residuals RDigits s = digit_residuals s"
| "residuals RAnyStar s = any_residuals s"

definition re_match :: "regex \<Rightarrow> string \<Rightarrow> bool" where
  \<comment> \<open>\<^verbatim>\<open>pattern.match(s)\<close> is truthy: some prefix of \<open>s\<close> matches.\<close>
  "re_match r s = (residuals r s \<noteq> [])"

definition re_fullmatch :: "regex \<Rightarrow> string \<Rightarrow> bool" where
  \<comment> \<open>The whole of \<open>s\<close> matches: the pattern anchored at both ends.\<close>
  "re_fullmatch r s = ([] \<in> set (residuals r s))"


definition startswith :: "string \<Rightarrow> string \<Rightarrow> bool" where
  "startswith s l = (strip_prefix l s \<noteq> None)"

section \<open>Python values the validator prints and loads\<close>

fun str_nat :: "nat \<Rightarrow> string" where
  "str_nat n =
     (if n < 10 then [''0123456789'' ! n]
      else str_nat (n div 10) @ [''0123456789'' ! (n mod 10)])"

declare str_nat.simps [simp del]

definition str_int :: "int \<Rightarrow> string" where
  \<comment> \<open>\<^verbatim>\<open>str(i)\<close> of a Python integer.\<close>
  "str_int i = (if i < 0 then ''-'' @ str_nat (nat (- i)) else str_nat (nat i))"

definition is_linebreak :: "char \<Rightarrow> bool" where
  \<comment> \<open>The line boundaries of \<^verbatim>\<open>str.splitlines\<close> among the code points below 256.\<close>
  "is_linebreak c =
     (c \<in> set [CHR 0x0A, CHR 0x0B, CHR 0x0C, CHR 0x0D, CHR 0x1C, CHR 0x1D, CHR 0x1E, CHR 0x85])"

fun splitlines_from :: "string \<Rightarrow> string \<Rightarrow> string list" where
  "splitlines_from line [] = (if line = [] then [] else [line])"
| "splitlines_from line (c # cs) =
     (if c = CHR 0x0D then
        (case cs of
           [] \<Rightarrow> [line]
         | d # ds \<Rightarrow> if d = CHR 0x0A then line # splitlines_from [] ds
                     else line # splitlines_from [] (d # ds))
      else if is_linebreak c then line # splitlines_from [] cs
      else splitlines_from (line @ [c]) cs)"

definition splitlines :: "string \<Rightarrow> string list" where
  "splitlines s = splitlines_from [] s"

text \<open>
  A parsed JSON document, as \<^verbatim>\<open>json.load\<close> returns it. Numbers are kept as integers;
  an object is the list of its members, looked up by key.
\<close>

datatype json =
    JNull
  | JBool bool
  | JNumber int
  | JString string
  | JArray "json list"
  | JObject "(string \<times> json) list"

fun py_iter :: "json \<Rightarrow> error + json list" where
  \<comment> \<open>What \<^verbatim>\<open>for b in doc\<close> runs over.\<close>
  "py_iter (JArray xs) = Inr xs"
| "py_iter (JObject kvs) = Inr (map (\<lambda>kv. JString (fst kv)) kvs)"
| "py_iter (JString s) = Inr (map (\<lambda>c. JString [c]) s)"
| "py_iter _ = Inl TypeError"

fun py_getitem :: "json \<Rightarrow> string \<Rightarrow> error + json" where
  \<comment> \<open>\<^verbatim>\<open>b[key]\<close> for a string key.\<close>
  "py_getitem (JObject kvs) k = (case map_of kvs k of None \<Rightarrow> Inl KeyError | Some v \<Rightarrow> Inr v)"
| "py_getitem _ k = Inl TypeError"

fun hashable :: "json \<Rightarrow> bool" where
  "hashable (JArray xs) = False"
| "hashable (JObject kvs) = False"
| "hashable _ = True"

fun image_tags :: "json list \<Rightarrow> error + json list" where
  "image_tags [] = Inr []"
| "image_tags (b # bs) =
     (case py_getitem b ''image_tag'' of
        Inl e \<Rightarrow> Inl e
      | Inr v \<Rightarrow>
          if hashable v then
            (case image_tags bs of Inl e \<Rightarrow> Inl e | Inr vs \<Rightarrow> Inr (v # vs))
          else Inl TypeError)"

section \<open>The validator\<close>

datatype dataset = DEFECTS4J | QUIXBUGS | BEARS | BUGSWARM

fun dataset_value :: "dataset \<Rightarrow> string" where
  "dataset_value DEFECTS4J = ''Defects4J''"
| "dataset_value QUIXBUGS = ''QuixBugs''"
| "dataset_value BEARS = ''Bears''"
| "dataset_value BUGSWARM = ''BugSwarm''"

definition all_datasets :: "dataset list" where
  \<comment> \<open>\<^verbatim>\<open>for dataset in Dataset\<close>: the members in definition order.\<close>
  "all_datasets = [DEFECTS4J, QUIXBUGS, BEARS, BUGSWARM]"

definition DEFECTS4J_CATEGORY :: "string list" where
  "DEFECTS4J_CATEGORY =
     [''Chart'', ''Cli'', ''Closure'', ''Codec'', ''Collections'', ''Compress'', ''Csv'',
      ''Gson'', ''JacksonCore'', ''JacksonDatabind'', ''JacksonXml'', ''Jsoup'', ''JxPath'',
      ''Lang'', ''Math'', ''Mockito'', ''Time'']"

definition defects4j_pattern :: regex where
  \<comment> \<open>\<^verbatim>\<open>re.compile(r'(' + '|'.join(DEFECTS4J_CATEGORY) + r')_\d+')\<close>\<close>
  "defects4j_pattern = RSeq (RAlt (map RLit DEFECTS4J_CATEGORY)) (RSeq (RLit ''_'') RDigits)"

text \<open>
  The two reference files are read from the working directory, not from the repository.
  What the validator sees of them is what the library calls make of them.
  \<^verbatim>\<open>open(...)\<close> and \<^verbatim>\<open>file.read()\<close> in text mode raise \<^verbatim>\<open>FileNotFoundError\<close> for a file
  that is not there and \<^verbatim>\<open>UnicodeDecodeError\<close> for bytes that are not text, and return
  the text otherwise. \<^verbatim>\<open>json.load\<close> raises, for a file that is there, \<^verbatim>\<open>UnicodeDecodeError\<close>
  for bytes that are not text, \<^verbatim>\<open>JSONDecodeError\<close> for text that is not JSON and
  \<^verbatim>\<open>RecursionError\<close> for a document nested too deep, and returns the parsed document
  otherwise. Other failures of the operating system are outside the model.
\<close>

datatype text_file = TextMissing | TextUndecodable | Text string

datatype malformation = NotText | NotJson | TooDeep

datatype json_file = JsonMissing | JsonMalformed malformation | JsonParsed json

fun py_read_text :: "text_file \<Rightarrow> error + string" where
  "py_read_text TextMissing = Inl FileNotFoundError"
| "py_read_text TextUndecodable = Inl UnicodeDecodeError"
| "py_read_text (Text s) = Inr s"

fun malformation_error :: "malformation \<Rightarrow> error" where
  "malformation_error NotText = UnicodeDecodeError"
| "malformation_error NotJson = JSONDecodeError"
| "malformation_error TooDeep = RecursionError"

fun py_json_load :: "json_file \<Rightarrow> error + json" where
  "py_json_load JsonMissing = Inl FileNotFoundError"
| "py_json_load (JsonMalformed m) = Inl (malformation_error m)"
| "py_json_load (JsonParsed j) = Inr j"

record world =
  quixbugs_txt :: text_file
  export_json :: json_file
  tree :: node

record refs =
  QUIXBUGS_SET :: "string set"
  BUGSWARM_SET :: "json set"

definition read_dataset_files :: "world \<Rightarrow> error + refs" where
  "read_dataset_files w =
     (case py_read_text (quixbugs_txt w) of
        Inl e \<Rightarrow> Inl e
      | Inr text \<Rightarrow>
          (case py_json_load (export_json w) of
             Inl e \<Rightarrow> Inl e
           | Inr BugSwarm_json \<Rightarrow>
               (case py_iter BugSwarm_json of
                  Inl e \<Rightarrow> Inl e
                | Inr bugs \<Rightarrow>
                    (case image_tags bugs of
                       Inl e \<Rightarrow> Inl e
                     | Inr tags \<Rightarrow>
                         Inr \<lparr>QUIXBUGS_SET = set (splitlines text),
                              BUGSWARM_SET = set tags\<rparr>))))"

definition dir_candidates :: "node \<Rightarrow> path \<Rightarrow> (string \<Rightarrow> bool) \<Rightarrow> error + path list" where
  \<comment> \<open>\<^verbatim>\<open>[folder for folder in dataset_path.iterdir() if folder.is_dir() and rule(folder.name)]\<close>\<close>
  "dir_candidates fs dataset_path rule =
     (case iterdir fs dataset_path of
        Inl e \<Rightarrow> Inl e
      | Inr folders \<Rightarrow>
          Inr (filter (\<lambda>folder. is_dir fs folder \<and> rule (name folder)) folders))"

definition list_bug_candidates :: "node \<Rightarrow> refs \<Rightarrow> path \<Rightarrow> string \<Rightarrow> error + path list" where
  "list_bug_candidates fs rs dataset_path dataset =
     (if dataset = dataset_value DEFECTS4J then
        dir_candidates fs dataset_path (re_match defects4j_pattern)
      else if dataset = dataset_value QUIXBUGS then
        dir_candidates fs dataset_path (\<lambda>n. n \<in> QUIXBUGS_SET rs)
      else if dataset = dataset_value BEARS then
        dir_candidates fs dataset_path (\<lambda>n. startswith n ''Bears-'')
      else if dataset = dataset_value BUGSWARM then
        dir_candidates fs dataset_path (\<lambda>n. JString n \<in> BUGSWARM_SET rs)
      else Inl ValueError)"

fun walk :: "path \<Rightarrow> node \<Rightarrow> (path \<times> string list \<times> string list) list" where
  \<comment> \<open>\<^verbatim>\<open>os.walk\<close>, top down: one triple (root, dirs, files) for each directory.\<close>
  "walk p File = []"
| "walk p (Dir es) =
     (p, map fst (filter (\<lambda>e. snd e \<noteq> File) es), map fst (filter (\<lambda>e. snd e = File) es))
       # concat (map (\<lambda>e. walk (p @ [fst e]) (snd e)) es)"

definition os_walk :: "node \<Rightarrow> path \<Rightarrow> (path \<times> string list \<times> string list) list" where
  \<comment> \<open>A top that is missing or is a file yields nothing: \<^verbatim>\<open>os.walk\<close> ignores the error.\<close>
  "os_walk fs p = (case resolve fs p of None \<Rightarrow> [] | Some n \<Rightarrow> walk p n)"

definition fnmatch_filter :: "string list \<Rightarrow> regex \<Rightarrow> string list" where
  "fnmatch_filter names pat = filter (re_fullmatch pat) names"

definition randoop_glob :: regex where
  \<comment> \<open>\<^verbatim>\<open>'Randoop*.java'\<close>\<close>
  "randoop_glob = RSeq (RLit ''Randoop'') (RSeq RAnyStar (RLit ''.java''))"

definition evosuite_glob :: regex where
  \<comment> \<open>\<^verbatim>\<open>'Evosuite*.java'\<close>\<close>
  "evosuite_glob = RSeq (RLit ''Evosuite'') (RSeq RAnyStar (RLit ''.java''))"

definition find_test_files :: "regex \<Rightarrow> node \<Rightarrow> path \<Rightarrow> path list" where
  "find_test_files pat fs p =
     concat (map (\<lambda>(root, dirs, files). map (\<lambda>filename. root @ [filename])
                                            (fnmatch_filter files pat))
                 (os_walk fs p))"

definition find_randoop_test_files :: "node \<Rightarrow> path \<Rightarrow> path list" where
  "find_randoop_test_files = find_test_files randoop_glob"

definition find_evosuite_test_files :: "node \<Rightarrow> path \<Rightarrow> path list" where
  "find_evosuite_test_files = find_test_files evosuite_glob"


text \<open>
  The state of a run: the lines printed so far and the local flag \<^verbatim>\<open>validate_pass\<close>.
  A loop body either falls through to the next iteration, returns from \<^verbatim>\<open>validate\<close>,
  or lets an exception escape.
\<close>

record run =
  printed :: "string list"
  validate_pass :: bool

datatype flow = Continue | Return | Raise error

definition print :: "string \<Rightarrow> run \<Rightarrow> run" where
  "print line st = st\<lparr>printed := printed st @ [line]\<rparr>"

definition fail :: "string \<Rightarrow> run \<Rightarrow> run" where
  \<comment> \<open>A diagnostic followed by \<^verbatim>\<open>validate_pass = False\<close>.\<close>
  "fail line st = (print line st)\<lparr>validate_pass := False\<rparr>"

definition dataset_requirements :: "dataset \<Rightarrow> nat" where
  "dataset_requirements d =
     (case d of DEFECTS4J \<Rightarrow> 68 | QUIXBUGS \<Rightarrow> 20 | BEARS \<Rightarrow> 20 | BUGSWARM \<Rightarrow> 20)"

definition check_versions :: "node \<Rightarrow> string \<Rightarrow> path \<Rightarrow> run \<Rightarrow> run" where
  "check_versions fs dv folder st =
     (let st = (if \<not> list_all (\<lambda>subfolder. exists fs (folder @ [subfolder]))
                                 [''Buggy-Version'', ''Patched-Version'']
                then fail (''[FAIL] Incomplete versions in '' @ dv @ ''-'' @ name folder) st
                else st);
          st = (if \<not> exists fs (folder @ [''test.txt''])
                then fail (''[FAIL] No failed test file in '' @ dv @ ''-'' @ name folder) st
                else st)
      in st)"

definition check_test_files :: "node \<Rightarrow> string \<Rightarrow> path \<Rightarrow> run \<Rightarrow> run" where
  "check_test_files fs dv folder st =
     (let st = (if length (find_randoop_test_files fs (folder @ [''Buggy-Version''])) = 0
                then fail (''[FAIL] No Randoop test files in '' @ dv @ ''-'' @ name folder
                             @ ''/Buggy-Version'') st
                else st);
          st = (if length (find_randoop_test_files fs (folder @ [''Patched-Version''])) = 0
                then fail (''[FAIL] No Randoop test files in '' @ dv @ ''-'' @ name folder
                             @ ''/Patched-Version'') st
                else st);
          st = (if length (find_evosuite_test_files fs (folder @ [''Buggy-Version''])) = 0
                then fail (''[FAIL] No Evosuite test files in '' @ dv @ ''-'' @ name folder
                             @ ''/Buggy-Version'') st
                else st);
          st = (if length (find_evosuite_test_files fs (folder @ [''Patched-Version''])) = 0
                then fail (''[FAIL] No Evosuite test files in '' @ dv @ ''-'' @ name folder
                             @ ''/Patched-Version'') st
                else st)
      in st)"

definition check_coverage :: "node \<Rightarrow> string \<Rightarrow> path \<Rightarrow> run \<Rightarrow> run \<times> flow" where
  "check_coverage fs dv folder st =
     (if \<not> exists fs (folder @ [''Coverage'']) then
        (print (''[FAIL] No coverage folder in '' @ dv @ ''-'' @ name folder) st, Return)
      else if \<not> exists fs (folder @ [''Coverage'', ''Buggy-version-Randoop'']) then
        (print (''[FAIL] No coverage folder for Randoop in '' @ dv @ ''-'' @ name folder) st,
         Return)
      else if \<not> exists fs (folder @ [''Coverage'', ''Buggy-version-Evosuite'']) then
        (print (''[FAIL] No coverage folder for Evosuite in '' @ dv @ ''-'' @ name folder) st,
         Return)
      else if \<not> exists fs (folder @ [''Coverage'', ''Patched-version-Randoop'']) then
        (print (''[FAIL] No coverage folder for Randoop in '' @ dv @ ''-'' @ name folder) st,
         Return)
      else if \<not> exists fs (folder @ [''Coverage'', ''Patched-version-Evosuite'']) then
        (print (''[FAIL] No coverage folder for Evosuite in '' @ dv @ ''-'' @ name folder) st,
         Return)
      else if \<not> exists fs (folder @ [''Coverage'', ''Buggy-version-All'']) then
        (print (''[FAIL] No coverage folder for All in '' @ dv @ ''-'' @ name folder) st,
         Return)
      else if \<not> exists fs (folder @ [''Coverage'', ''Patched-version-All'']) then
        (print (''[FAIL] No coverage folder for All in '' @ dv @ ''-'' @ name folder) st,
         Return)
      else (st, Continue))"

definition validate_folder :: "node \<Rightarrow> string \<Rightarrow> path \<Rightarrow> run \<Rightarrow> run \<times> flow" where
  \<comment> \<open>The body of \<^verbatim>\<open>for folder in candidates\<close>.\<close>
  "validate_folder fs dv folder st =
     (let st = check_versions fs dv folder st in
      if \<not> validate_pass st then (st, Return)
      else
        let st = check_test_files fs dv folder st in
        if \<not> validate_pass st then (st, Return)
        else check_coverage fs dv folder st)"

fun validate_folders :: "node \<Rightarrow> string \<Rightarrow> path list \<Rightarrow> run \<Rightarrow> run \<times> flow" where
  "validate_folders fs dv [] st = (st, Continue)"
| "validate_folders fs dv (folder # rest) st =
     (case validate_folder fs dv folder st of
        (st', Continue) \<Rightarrow> validate_folders fs dv rest st'
      | (st', stop) \<Rightarrow> (st', stop))"

definition validate_dataset :: "node \<Rightarrow> refs \<Rightarrow> path \<Rightarrow> dataset \<Rightarrow> run \<Rightarrow> run \<times> flow" where
  \<comment> \<open>The body of \<^verbatim>\<open>for dataset in Dataset\<close>.\<close>
  "validate_dataset fs rs repo_path d st =
     (let dataset_path = repo_path @ [dataset_value d] in
      if \<not> exists fs dataset_path then
        (print (''[FAIL] No '' @ dataset_value d @ '' folder'') st, Return)
      else
        (case list_bug_candidates fs rs dataset_path (dataset_value d) of
           Inl e \<Rightarrow> (st, Raise e)
         | Inr candidates \<Rightarrow>
             let min_bugs = dataset_requirements d;
                 st = (if length candidates < min_bugs
                       then fail (''[FAIL] Missing ''
                                    @ str_int (int min_bugs - int (length candidates))
                                    @ '' bugs in '' @ dataset_value d) st
                       else st)
             in validate_folders fs (dataset_value d) candidates st))"

fun validate_datasets :: "node \<Rightarrow> refs \<Rightarrow> path \<Rightarrow> dataset list \<Rightarrow> run \<Rightarrow> run \<times> flow" where
  "validate_datasets fs rs repo_path [] st = (st, Continue)"
| "validate_datasets fs rs repo_path (d # rest) st =
     (case validate_dataset fs rs repo_path d st of
        (st', Continue) \<Rightarrow> validate_datasets fs rs repo_path rest st'
      | (st', stop) \<Rightarrow> (st', stop))"

datatype outcome = Returned | Raised error

definition validate :: "world \<Rightarrow> path \<Rightarrow> string list \<times> outcome" where
  \<comment> \<open>The lines on standard output, and how the call ended.\<close>
  "validate w repo_path =
     (case read_dataset_files w of
        Inl e \<Rightarrow> ([], Raised e)
      | Inr rs \<Rightarrow>
          (case validate_datasets (tree w) rs repo_path all_datasets
                  \<lparr>printed = [], validate_pass = True\<rparr> of
             (st, Raise e) \<Rightarrow> (printed st, Raised e)
           | (st, Return) \<Rightarrow> (printed st, Returned)
           | (st, Continue) \<Rightarrow>
               if validate_pass st then (printed st @ [''[PASS] Validation pass''], Returned)
               else (printed st, Returned)))"

definition is_fail_line :: "string \<Rightarrow> bool" where
  "is_fail_line line = startswith line ''[FAIL]''"

section \<open>When the checks of the validator print nothing\<close>

text \<open>
  The conditions the code itself tests, collected: a candidate folder passes when none
  of the checks of the loop body fires for it, a dataset passes when its root exists,
  the enumeration returns at least the required number of candidates and each of them
  passes.
\<close>

definition has_versions_and_tests :: "node \<Rightarrow> path \<Rightarrow> bool" where
  "has_versions_and_tests fs folder =
     (exists fs (folder @ [''Buggy-Version'']) \<and>
      exists fs (folder @ [''Patched-Version'']) \<and>
      exists fs (folder @ [''test.txt'']) \<and>
      find_randoop_test_files fs (folder @ [''Buggy-Version'']) \<noteq> [] \<and>
      find_randoop_test_files fs (folder @ [''Patched-Version'']) \<noteq> [] \<and>
      find_evosuite_test_files fs (folder @ [''Buggy-Version'']) \<noteq> [] \<and>
      find_evosuite_test_files fs (folder @ [''Patched-Version'']) \<noteq> [])"

definition folder_passes :: "node \<Rightarrow> path \<Rightarrow> bool" where
  "folder_passes fs folder =
     (has_versions_and_tests fs folder \<and>
      exists fs (folder @ [''Coverage'']) \<and>
      exists fs (folder @ [''Coverage'', ''Buggy-version-Randoop'']) \<and>
      exists fs (folder @ [''Coverage'', ''Buggy-version-Evosuite'']) \<and>
      exists fs (folder @ [''Coverage'', ''Patched-version-Randoop'']) \<and>
      exists fs (folder @ [''Coverage'', ''Patched-version-Evosuite'']) \<and>
      exists fs (folder @ [''Coverage'', ''Buggy-version-All'']) \<and>
      exists fs (folder @ [''Coverage'', ''Patched-version-All'']))"

definition dataset_passes :: "node \<Rightarrow> refs \<Rightarrow> path \<Rightarrow> dataset \<Rightarrow> bool" where
  "dataset_passes fs rs repo_path d =
     (exists fs (repo_path @ [dataset_value d]) \<and>
      (case list_bug_candidates fs rs (repo_path @ [dataset_value d]) (dataset_value d) of
         Inl e \<Rightarrow> False
       | Inr candidates \<Rightarrow>
           dataset_requirements d \<le> length candidates \<and>
           list_all (folder_passes fs) candidates))"

definition all_pass :: "node \<Rightarrow> refs \<Rightarrow> path \<Rightarrow> bool" where
  "all_pass fs rs repo_path = list_all (dataset_passes fs rs repo_path) all_datasets"

section \<open>Conformance, in the words of the specification\<close>

text \<open>
  What the specification asks of a repository, stated on the directory tree alone and
  without the functions of the validator.

  A name matches the glob \<^verbatim>\<open>pre*suf\<close> when it is \<open>pre\<close>, anything, \<open>suf\<close>. The files of a
  subtree are the regular files at any depth below its root. A candidate folder is
  conformant when it has \<^verbatim>\<open>Buggy-Version\<close>, \<^verbatim>\<open>Patched-Version\<close> and \<^verbatim>\<open>test.txt\<close>, each
  version subtree holds a file matching \<^verbatim>\<open>Randoop*.java\<close> and one matching
  \<^verbatim>\<open>Evosuite*.java\<close>, and \<^verbatim>\<open>Coverage\<close> holds the six named subfolders.
\<close>

definition glob_star :: "string \<Rightarrow> string \<Rightarrow> string \<Rightarrow> bool" where
  "glob_star pre suf n = (\<exists>mid. n = pre @ mid @ suf)"

fun files_below :: "node \<Rightarrow> string list" where
  "files_below File = []"
| "files_below (Dir es) =
     map fst (filter (\<lambda>e. snd e = File) es) @ concat (map (\<lambda>e. files_below (snd e)) es)"

definition holds_file :: "(string \<Rightarrow> bool) \<Rightarrow> node \<Rightarrow> path \<Rightarrow> bool" where
  "holds_file P fs p =
     (case resolve fs p of None \<Rightarrow> False | Some v \<Rightarrow> \<exists>f\<in>set (files_below v). P f)"

definition coverage_subfolders :: "string list" where
  "coverage_subfolders =
     [''Buggy-version-Randoop'', ''Buggy-version-Evosuite'', ''Patched-version-Randoop'',
      ''Patched-version-Evosuite'', ''Buggy-version-All'', ''Patched-version-All'']"

definition conformant_candidate :: "node \<Rightarrow> path \<Rightarrow> bool" where
  "conformant_candidate fs folder =
     (exists fs (folder @ [''Buggy-Version'']) \<and>
      exists fs (folder @ [''Patched-Version'']) \<and>
      exists fs (folder @ [''test.txt'']) \<and>
      holds_file (glob_star ''Randoop'' ''.java'') fs (folder @ [''Buggy-Version'']) \<and>
      holds_file (glob_star ''Randoop'' ''.java'') fs (folder @ [''Patched-Version'']) \<and>
      holds_file (glob_star ''Evosuite'' ''.java'') fs (folder @ [''Buggy-Version'']) \<and>
      holds_file (glob_star ''Evosuite'' ''.java'') fs (folder @ [''Patched-Version'']) \<and>
      (\<forall>c\<in>set coverage_subfolders. exists fs (folder @ [''Coverage'', c])))"

text \<open>
  The candidates of a dataset are the immediate subdirectories of its root whose name
  the rule of the dataset accepts. For the category-based dataset the specification gives the
  rule as the whole name being a category, an underscore and digits
  (\<open>category_and_number\<close>); the code enumerates by the start of the name only
  (\<open>category_and_digit\<close>). The other three rules are membership in the first reference
  set, the prefix \<^verbatim>\<open>Bears-\<close>, and membership in the second reference set.
\<close>

definition category_and_number :: "string \<Rightarrow> bool" where
  "category_and_number n =
     (\<exists>c\<in>set DEFECTS4J_CATEGORY. \<exists>ds. ds \<noteq> [] \<and> list_all is_digit ds \<and> n = c @ ''_'' @ ds)"

definition category_and_digit :: "string \<Rightarrow> bool" where
  "category_and_digit n =
     (\<exists>c\<in>set DEFECTS4J_CATEGORY. \<exists>d rest. is_digit d \<and> n = c @ ''_'' @ d # rest)"

definition candidate_name :: "(string \<Rightarrow> bool) \<Rightarrow> refs \<Rightarrow> dataset \<Rightarrow> string \<Rightarrow> bool" where
  "candidate_name category rs d n =
     (case d of
        DEFECTS4J \<Rightarrow> category n
      | QUIXBUGS \<Rightarrow> n \<in> QUIXBUGS_SET rs
      | BEARS \<Rightarrow> (\<exists>rest. n = ''Bears-'' @ rest)
      | BUGSWARM \<Rightarrow> JString n \<in> BUGSWARM_SET rs)"

definition candidates_of ::
  "(string \<Rightarrow> bool) \<Rightarrow> node \<Rightarrow> refs \<Rightarrow> path \<Rightarrow> dataset \<Rightarrow> path list" where
  "candidates_of category fs rs repo_path d =
     (case resolve fs (repo_path @ [dataset_value d]) of
        Some (Dir es) \<Rightarrow>
          map (\<lambda>e. repo_path @ [dataset_value d, fst e])
            (filter (\<lambda>e. is_dir fs (repo_path @ [dataset_value d, fst e]) \<and>
                          candidate_name category rs d (fst e)) es)
      | _ \<Rightarrow> [])"

definition claimed_minimum :: "dataset \<Rightarrow> nat" where
  "claimed_minimum d = (case d of DEFECTS4J \<Rightarrow> 68 | QUIXBUGS \<Rightarrow> 20 | BEARS \<Rightarrow> 20 | BUGSWARM \<Rightarrow> 20)"

definition conformant_dataset ::
  "(string \<Rightarrow> bool) \<Rightarrow> node \<Rightarrow> refs \<Rightarrow> path \<Rightarrow> dataset \<Rightarrow> bool" where
  "conformant_dataset category fs rs repo_path d =
     (exists fs (repo_path @ [dataset_value d]) \<and>
      claimed_minimum d \<le> length (candidates_of category fs rs repo_path d) \<and>
      (\<forall>c\<in>set (candidates_of category fs rs repo_path d). conformant_candidate fs c))"

definition conformant_repository :: "(string \<Rightarrow> bool) \<Rightarrow> node \<Rightarrow> refs \<Rightarrow> path \<Rightarrow> bool" where
  "conformant_repository category fs rs repo_path =
     (\<forall>d\<in>set all_datasets. conformant_dataset category fs rs repo_path d)"

section \<open>Notions used in the statements\<close>

definition start :: run where
  \<comment> \<open>The state in which the loop over the datasets begins.\<close>
  "start = \<lparr>printed = [], validate_pass = True\<rparr>"

definition pass_line :: string where
  "pass_line = ''[PASS] Validation pass''"

text \<open>
  Records of the JSON reference file. A record is tagged when it is an object that
  carries the field \<^verbatim>\<open>image_tag\<close> with a value that can be a member of a set; it lacks
  the field when it is an object without it.
\<close>

fun tagged :: "json \<Rightarrow> bool" where
  "tagged (JObject kvs) =
     (case map_of kvs ''image_tag'' of None \<Rightarrow> False | Some v \<Rightarrow> hashable v)"
| "tagged _ = False"

fun lacks_field :: "json \<Rightarrow> bool" where
  "lacks_field (JObject kvs) = (map_of kvs ''image_tag'' = None)"
| "lacks_field _ = False"

text \<open>
  The diagnostics the test-file group owes a candidate: one line for each of the four
  searches that finds nothing, in the order of the checks.
\<close>

definition test_file_lines :: "node \<Rightarrow> string \<Rightarrow> path \<Rightarrow> string list" where
  "test_file_lines fs dv folder =
     (if find_randoop_test_files fs (folder @ [''Buggy-Version'']) = []
      then [''[FAIL] No Randoop test files in '' @ dv @ ''-'' @ name folder @ ''/Buggy-Version'']
      else []) @
     (if find_randoop_test_files fs (folder @ [''Patched-Version'']) = []
      then [''[FAIL] No Randoop test files in '' @ dv @ ''-'' @ name folder @ ''/Patched-Version'']
      else []) @
     (if find_evosuite_test_files fs (folder @ [''Buggy-Version'']) = []
      then [''[FAIL] No Evosuite test files in '' @ dv @ ''-'' @ name folder @ ''/Buggy-Version'']
      else []) @
     (if find_evosuite_test_files fs (folder @ [''Patched-Version'']) = []
      then [''[FAIL] No Evosuite test files in '' @ dv @ ''-'' @ name folder @ ''/Patched-Version'']
      else [])"

text \<open>
  What holds of the state whenever a loop body is entered: every line printed so far
  is a failure diagnostic, and the flag is still set exactly when nothing was printed.
  A result is in order when a fall-through leaves such a state and a return has
  printed at least one diagnostic.
\<close>

definition consistent :: "run \<Rightarrow> bool" where
  "consistent st =
     (list_all is_fail_line (printed st) \<and> (validate_pass st \<longleftrightarrow> printed st = []))"

definition in_order :: "run \<times> flow \<Rightarrow> bool" where
  "in_order r =
     (case r of
        (st, Continue) \<Rightarrow> consistent st
      | (st, Return) \<Rightarrow> list_all is_fail_line (printed st) \<and> printed st \<noteq> []
      | (st, Raise e) \<Rightarrow> list_all is_fail_line (printed st))"

section \<open>Example repositories\<close>

definition no_refs :: refs where
  "no_refs = \<lparr>QUIXBUGS_SET = {}, BUGSWARM_SET = {}\<rparr>"

definition fsA :: node where
  "fsA = Dir [(''Lang_42abc'', Dir []), (''Lang42'', Dir []), (''Foo_1'', Dir []),
              (''Lang_7'', File), (''Math_3'', Dir [])]"

definition world_lines :: world where
  "world_lines =
     \<lparr>quixbugs_txt = Text (''a'' @ [CHR 0x0A] @ [CHR 0x0A] @ ''b'' @ [CHR 0x0A]),
      export_json = JsonParsed (JArray []),
      tree = Dir []\<rparr>"

definition refs_lines :: refs where
  "refs_lines = \<lparr>QUIXBUGS_SET = {''a'', [], ''b''}, BUGSWARM_SET = {}\<rparr>"

definition world_trailing :: world where
  "world_trailing =
     \<lparr>quixbugs_txt = Text (''a'' @ [CHR 0x0A] @ ''b'' @ [CHR 0x0A]),
      export_json = JsonParsed (JArray []),
      tree = Dir []\<rparr>"

definition world_no_tag :: world where
  "world_no_tag =
     \<lparr>quixbugs_txt = Text [],
      export_json = JsonParsed (JArray [JObject [(''image_tag'', JString ''t1'')],
                                        JObject [(''build'', JNumber 7)]]),
      tree = Dir []\<rparr>"

definition world_no_txt :: world where
  "world_no_txt =
     \<lparr>quixbugs_txt = TextMissing, export_json = JsonParsed (JArray []), tree = Dir []\<rparr>"

definition candidate_with :: "string list \<Rightarrow> node" where
  \<comment> \<open>A candidate folder, complete but for the coverage subfolders, which are as listed.\<close>
  "candidate_with covs =
     Dir [(''Buggy-Version'', Dir [(''RandoopTest0.java'', File), (''EvosuiteTest0.java'', File)]),
          (''Patched-Version'',
             Dir [(''src'', Dir [(''RandoopTest0.java'', File), (''EvosuiteTest0.java'', File)])]),
          (''test.txt'', File),
          (''Coverage'', Dir (map (\<lambda>n. (n, Dir [])) covs))]"

definition candidate_tree :: node where
  "candidate_tree = candidate_with coverage_subfolders"

definition untested_tree :: node where
  \<comment> \<open>Both versions and \<^verbatim>\<open>test.txt\<close>, some generated tests missing, no coverage.\<close>
  "untested_tree =
     Dir [(''Buggy-Version'', Dir [(''RandoopTest0.java'', File)]),
          (''Patched-Version'', Dir [(''EvosuiteTest0.java'', File)]),
          (''test.txt'', File)]"

definition numbered :: "string \<Rightarrow> nat \<Rightarrow> string list" where
  "numbered stem n = map (\<lambda>i. stem @ str_nat i) [1..<Suc n]"

definition folder_of :: "node \<Rightarrow> string list \<Rightarrow> node" where
  \<comment> \<open>A directory whose entries all hold a copy of the same tree.\<close>
  "folder_of t names = Dir (map (\<lambda>n. (n, t)) names)"

definition world_conformant :: world where
  "world_conformant =
     \<lparr>quixbugs_txt = Text (concat (map (\<lambda>l. l @ [CHR 0x0A]) (numbered ''q'' 20))),
      export_json = JsonParsed (JArray (map (\<lambda>t. JObject [(''image_tag'', JString t)])
                                         (numbered ''tag-'' 20))),
      tree = Dir [(''repo'',
               Dir [(''Defects4J'', folder_of candidate_tree (numbered ''Lang_'' 68)),
                    (''QuixBugs'', folder_of candidate_tree (numbered ''q'' 20)),
                    (''Bears'', folder_of candidate_tree (numbered ''Bears-'' 20)),
                    (''BugSwarm'', folder_of candidate_tree (numbered ''tag-'' 20))])]\<rparr>"

definition refs_conformant :: refs where
  "refs_conformant =
     \<lparr>QUIXBUGS_SET = set (numbered ''q'' 20),
      BUGSWARM_SET = set (map JString (numbered ''tag-'' 20))\<rparr>"

definition world_empty_repo :: world where
  "world_empty_repo =
     \<lparr>quixbugs_txt = Text [], export_json = JsonParsed (JArray []),
      tree = Dir [(''repo'', Dir [])]\<rparr>"

definition world_root_file :: world where
  "world_root_file =
     \<lparr>quixbugs_txt = Text [], export_json = JsonParsed (JArray []),
      tree = Dir [(''repo'', Dir [(''Defects4J'', File)])]\<rparr>"

definition world_no_quixbugs :: world where
  \<comment> \<open>As \<open>world_conformant\<close>, without the folder of the second dataset.\<close>
  "world_no_quixbugs =
     \<lparr>quixbugs_txt = Text (concat (map (\<lambda>l. l @ [CHR 0x0A]) (numbered ''q'' 20))),
      export_json = JsonParsed (JArray (map (\<lambda>t. JObject [(''image_tag'', JString t)])
                                         (numbered ''tag-'' 20))),
      tree = Dir [(''repo'',
               Dir [(''Defects4J'', folder_of candidate_tree (numbered ''Lang_'' 68)),
                    (''Bears'', folder_of candidate_tree (numbered ''Bears-'' 20)),
                    (''BugSwarm'', folder_of candidate_tree (numbered ''tag-'' 20))])]\<rparr>"

definition fs_untested :: node where
  "fs_untested =
     Dir [(''repo'', Dir [(''QuixBugs'', folder_of untested_tree (''first'' # numbered ''q'' 19))])]"

definition refs_untested :: refs where
  "refs_untested = \<lparr>QUIXBUGS_SET = set (''first'' # numbered ''q'' 19), BUGSWARM_SET = {}\<rparr>"

definition fs_no_buggy_randoop :: node where
  "fs_no_buggy_randoop =
     Dir [(''Bears-1'',
           candidate_with [''Buggy-version-Evosuite'', ''Patched-version-Randoop'',
                           ''Patched-version-Evosuite'', ''Buggy-version-All'',
                           ''Patched-version-All''])]"

definition fs_no_patched_randoop :: node where
  "fs_no_patched_randoop =
     Dir [(''Bears-1'',
           candidate_with [''Buggy-version-Randoop'', ''Buggy-version-Evosuite'',
                           ''Patched-version-Evosuite'', ''Buggy-version-All'',
                           ''Patched-version-All''])]"

definition fs_short :: node where
  "fs_short =
     Dir [(''repo'', Dir [(''Bears'', Dir [(''Bears-1'', Dir []), (''Bears-2'', Dir []),
                                          (''notes'', Dir [])])])]"

definition world_shortfall :: world where
  "world_shortfall =
     \<lparr>quixbugs_txt = Text [], export_json = JsonParsed (JArray []),
      tree = Dir [(''repo'',
               Dir [(''Defects4J'',
                     Dir [(''Lang_1'', Dir [(''Buggy-Version'', Dir []),
                                            (''Patched-Version'', Dir []),
                                            (''test.txt'', File)]),
                          (''Lang_2'', Dir [])])])]\<rparr>"

definition world_stray :: world where
  \<comment> \<open>As \<open>world_conformant\<close>, with one more, empty, directory in the first dataset.\<close>
  "world_stray =
     \<lparr>quixbugs_txt = Text (concat (map (\<lambda>l. l @ [CHR 0x0A]) (numbered ''q'' 20))),
      export_json = JsonParsed (JArray (map (\<lambda>t. JObject [(''image_tag'', JString t)])
                                         (numbered ''tag-'' 20))),
      tree = Dir [(''repo'',
               Dir [(''Defects4J'',
                     Dir ((''Lang_42abc'', Dir [])
                          # map (\<lambda>n. (n, candidate_tree)) (numbered ''Lang_'' 68))),
                    (''QuixBugs'', folder_of candidate_tree (numbered ''q'' 20)),
                    (''Bears'', folder_of candidate_tree (numbered ''Bears-'' 20)),
                    (''BugSwarm'', folder_of candidate_tree (numbered ''tag-'' 20))])]\<rparr>"

definition world_empty_defects4j :: world where
  "world_empty_defects4j =
     \<lparr>quixbugs_txt = Text [], export_json = JsonParsed (JArray []),
      tree = Dir [(''repo'', Dir [(''Defects4J'', Dir [])])]\<rparr>"

section \<open>Candidate names of the category-based dataset\<close>


lemma strip_prefix_Some: "strip_prefix l s = Some r \<longleftrightarrow> s = l @ r"
  by (induction l s rule: strip_prefix.induct) auto

lemma strip_prefix_None: "strip_prefix l s = None \<longleftrightarrow> (\<forall>r. s \<noteq> l @ r)"
  by (induction l s rule: strip_prefix.induct) auto

lemma set_residuals_RLit: "set (residuals (RLit l) s) = {r. s = l @ r}"
proof (cases "strip_prefix l s")
  case None
  then show ?thesis using strip_prefix_None [of l s] by auto
next
  case (Some r)
  then have "s = l @ r" by (simp add: strip_prefix_Some)
  moreover have "residuals (RLit l) s = [r]" using Some by simp
  ultimately show ?thesis by auto
qed

lemma set_residuals_lits:
  "set (residuals (RAlt (map RLit ls)) s) = {r. \<exists>l\<in>set ls. s = l @ r}"
proof -
  have "set (residuals (RAlt (map RLit ls)) s) = (\<Union>l\<in>set ls. set (residuals (RLit l) s))"
    by (simp del: residuals.simps(1))
  then show ?thesis
    unfolding set_residuals_RLit by blast
qed

lemma set_residuals_RSeq:
  "set (residuals (RSeq a b) s) = (\<Union>r\<in>set (residuals a s). set (residuals b r))"
  by simp

lemma set_digit_residuals:
  "set (digit_residuals s) = {r. \<exists>ds. ds \<noteq> [] \<and> list_all is_digit ds \<and> s = ds @ r}"
proof (induction s)
  case Nil
  then show ?case by simp
next
  case (Cons c cs)
  show ?case
  proof (cases "is_digit c")
    case False
    then show ?thesis by (auto simp: Cons_eq_append_conv)
  next
    case True
    have "set (digit_residuals (c # cs)) = insert cs (set (digit_residuals cs))"
      using True by simp
    also have "\<dots> = {r. \<exists>ds. ds \<noteq> [] \<and> list_all is_digit ds \<and> c # cs = ds @ r}"
    proof (intro set_eqI iffI)
      fix r assume "r \<in> insert cs (set (digit_residuals cs))"
      then consider "r = cs" | ds where "ds \<noteq> []" "list_all is_digit ds" "cs = ds @ r"
        using Cons.IH by auto
      then show "r \<in> {r. \<exists>ds. ds \<noteq> [] \<and> list_all is_digit ds \<and> c # cs = ds @ r}"
      proof cases
        case 1
        then have "[c] \<noteq> [] \<and> list_all is_digit [c] \<and> c # cs = [c] @ r" using True by simp
        then show ?thesis by blast
      next
        case 2
        then have "c # ds \<noteq> [] \<and> list_all is_digit (c # ds) \<and> c # cs = (c # ds) @ r"
          using True by simp
        then show ?thesis by blast
      qed
    next
      fix r assume "r \<in> {r. \<exists>ds. ds \<noteq> [] \<and> list_all is_digit ds \<and> c # cs = ds @ r}"
      then obtain ds where ds: "ds \<noteq> []" "list_all is_digit ds" "c # cs = ds @ r" by blast
      then obtain ds' where ds': "ds = c # ds'" "cs = ds' @ r"
        by (cases ds) auto
      show "r \<in> insert cs (set (digit_residuals cs))"
      proof (cases "ds' = []")
        case True
        then show ?thesis using ds' by simp
      next
        case False
        then have "r \<in> set (digit_residuals cs)"
          using Cons.IH ds ds' by auto
        then show ?thesis by simp
      qed
    qed
    finally show ?thesis .
  qed
qed

lemma digit_residuals_nonempty:
  "digit_residuals s \<noteq> [] \<longleftrightarrow> (\<exists>d r. s = d # r \<and> is_digit d)"
  by (cases s) auto

lemma re_match_defects4j:
  "re_match defects4j_pattern n \<longleftrightarrow>
     (\<exists>c\<in>set DEFECTS4J_CATEGORY. \<exists>d r. n = c @ ''_'' @ d # r \<and> is_digit d)"
proof -
  have "re_match defects4j_pattern n \<longleftrightarrow>
        (\<exists>r1\<in>set (residuals (RAlt (map RLit DEFECTS4J_CATEGORY)) n).
           \<exists>r2\<in>set (residuals (RLit ''_'') r1). digit_residuals r2 \<noteq> [])"
    unfolding re_match_def defects4j_pattern_def by (simp del: residuals.simps(1,2) add: residuals.simps(3,4))
  also have "\<dots> \<longleftrightarrow> (\<exists>c\<in>set DEFECTS4J_CATEGORY. \<exists>r1. n = c @ r1 \<and>
                        (\<exists>r2. r1 = ''_'' @ r2 \<and> (\<exists>d r. r2 = d # r \<and> is_digit d)))"
    unfolding set_residuals_lits set_residuals_RLit digit_residuals_nonempty by blast
  also have "\<dots> \<longleftrightarrow> (\<exists>c\<in>set DEFECTS4J_CATEGORY. \<exists>d r. n = c @ ''_'' @ d # r \<and> is_digit d)"
    by fastforce
  finally show ?thesis .
qed

lemma re_fullmatch_defects4j:
  "re_fullmatch defects4j_pattern n \<longleftrightarrow>
     (\<exists>c\<in>set DEFECTS4J_CATEGORY. \<exists>ds. ds \<noteq> [] \<and> list_all is_digit ds \<and> n = c @ ''_'' @ ds)"
proof -
  have "re_fullmatch defects4j_pattern n \<longleftrightarrow>
        (\<exists>r1\<in>set (residuals (RAlt (map RLit DEFECTS4J_CATEGORY)) n).
           \<exists>r2\<in>set (residuals (RLit ''_'') r1). [] \<in> set (digit_residuals r2))"
    unfolding re_fullmatch_def defects4j_pattern_def by (simp del: residuals.simps(1,2) add: residuals.simps(3,4))
  also have "\<dots> \<longleftrightarrow> (\<exists>c\<in>set DEFECTS4J_CATEGORY. \<exists>r1. n = c @ r1 \<and>
                        (\<exists>r2. r1 = ''_'' @ r2 \<and> (\<exists>ds. ds \<noteq> [] \<and> list_all is_digit ds \<and> r2 = ds @ [])))"
    unfolding set_residuals_lits set_residuals_RLit set_digit_residuals by blast
  also have "\<dots> \<longleftrightarrow> (\<exists>c\<in>set DEFECTS4J_CATEGORY. \<exists>ds. ds \<noteq> [] \<and> list_all is_digit ds \<and> n = c @ ''_'' @ ds)"
    by auto
  finally show ?thesis .
qed

text \<open>
  Claim C1 (as the code has it). For the category-based dataset, a directory entry is a
  candidate if and only if it is a directory whose name begins with one of the 17
  category names, then an underscore, then at least one decimal digit. The pattern is
  applied with \<^verbatim>\<open>match\<close>, which anchors at the start only, so what follows the first
  digit is not examined. Names without the underscore (\<^verbatim>\<open>Lang42\<close>) and names with an
  unknown category (\<^verbatim>\<open>Foo_1\<close>) are not candidates.
\<close>

theorem defects4j_candidates_prefix_rule:
  assumes "iterdir fs dataset_path = Inr folders"
  shows "list_bug_candidates fs rs dataset_path (dataset_value DEFECTS4J) =
           Inr (filter (\<lambda>folder. is_dir fs folder \<and>
                          (\<exists>c\<in>set DEFECTS4J_CATEGORY. \<exists>d rest.
                              name folder = c @ ''_'' @ d # rest \<and> is_digit d)) folders)
         \<and> length DEFECTS4J_CATEGORY = 17
         \<and> \<not> re_match defects4j_pattern ''Lang42''
         \<and> \<not> re_match defects4j_pattern ''Foo_1''"
proof -
  have "list_bug_candidates fs rs dataset_path (dataset_value DEFECTS4J) =
           Inr (filter (\<lambda>folder. is_dir fs folder \<and> re_match defects4j_pattern (name folder))
                  folders)"
    using assms by (simp add: list_bug_candidates_def dir_candidates_def)
  moreover have "length DEFECTS4J_CATEGORY = 17"
    by (simp add: DEFECTS4J_CATEGORY_def)
  moreover have "\<not> re_match defects4j_pattern ''Lang42''"
    by (simp add: re_match_def defects4j_pattern_def DEFECTS4J_CATEGORY_def)
  moreover have "\<not> re_match defects4j_pattern ''Foo_1''"
    by (simp add: re_match_def defects4j_pattern_def DEFECTS4J_CATEGORY_def)
  ultimately show ?thesis
    by (simp add: re_match_defects4j)
qed

text \<open>
  The rule at work on a directory holding \<^verbatim>\<open>Lang_42abc\<close>, \<^verbatim>\<open>Lang42\<close>, \<^verbatim>\<open>Foo_1\<close> and
  \<^verbatim>\<open>Math_3\<close> as directories and \<^verbatim>\<open>Lang_7\<close> as a file.
\<close>

theorem defects4j_candidates_prefix_rule_witness:
  "iterdir fsA [] =
     Inr [[''Lang_42abc''], [''Lang42''], [''Foo_1''], [''Lang_7''], [''Math_3'']]
   \<and> list_bug_candidates fsA no_refs [] (dataset_value DEFECTS4J) =
       Inr [[''Lang_42abc''], [''Math_3'']]"
proof -
  have h: "iterdir fsA [] =
             Inr [[''Lang_42abc''], [''Lang42''], [''Foo_1''], [''Lang_7''], [''Math_3'']]"
    by (simp add: iterdir_def fsA_def)
  show ?thesis
    using h defects4j_candidates_prefix_rule [OF h, of no_refs]
    by (simp add: is_dir_def fsA_def name_def DEFECTS4J_CATEGORY_def is_digit_def)
qed

text \<open>
  Claim C1 as stated fails: the directory \<^verbatim>\<open>Lang_42abc\<close> is returned as a candidate
  although the name does not match the pattern anchored at both ends.
\<close>

theorem defects4j_anchored_counterexample:
  "list_bug_candidates (Dir [(''Lang_42abc'', Dir [])]) no_refs []
       (dataset_value DEFECTS4J) = Inr [[''Lang_42abc'']]
   \<and> \<not> re_fullmatch defects4j_pattern ''Lang_42abc''"
  by (simp add: list_bug_candidates_def dir_candidates_def iterdir_def is_dir_def name_def
        re_match_def re_fullmatch_def defects4j_pattern_def DEFECTS4J_CATEGORY_def is_digit_def)

section \<open>Loading the reference sets\<close>



lemma splitlines_from_plain:
  "\<forall>c\<in>set l. \<not> is_linebreak c \<Longrightarrow> splitlines_from acc (l @ rest) = splitlines_from (acc @ l) rest"
proof (induction l arbitrary: acc)
  case Nil
  then show ?case by simp
next
  case (Cons c l)
  then have "\<not> is_linebreak c" by simp
  then have "c \<noteq> CHR 0x0D" by (auto simp: is_linebreak_def)
  then show ?case using Cons \<open>\<not> is_linebreak c\<close> by simp
qed

lemma splitlines_from_newline:
  "splitlines_from acc (CHR 0x0A # rest) = acc # splitlines_from [] rest"
  by (simp add: is_linebreak_def)

lemma splitlines_from_lines:
  assumes "\<forall>l\<in>set ls. \<forall>c\<in>set l. \<not> is_linebreak c" and "\<forall>c\<in>set final. \<not> is_linebreak c"
  shows "splitlines_from [] (concat (map (\<lambda>l. l @ [CHR 0x0A]) ls) @ final) =
           ls @ (if final = [] then [] else [final])"
  using assms
proof (induction ls)
  case Nil
  then show ?case
    using splitlines_from_plain [of final "[]" "[]"] by simp
next
  case (Cons l ls)
  have "splitlines_from [] (concat (map (\<lambda>l. l @ [CHR 0x0A]) (l # ls)) @ final) =
        splitlines_from [] (l @ (CHR 0x0A # (concat (map (\<lambda>l. l @ [CHR 0x0A]) ls) @ final)))"
    by simp
  also have "\<dots> = splitlines_from l (CHR 0x0A # (concat (map (\<lambda>l. l @ [CHR 0x0A]) ls) @ final))"
    using Cons.prems(1) splitlines_from_plain [of l "[]"] by simp
  also have "\<dots> = l # splitlines_from [] (concat (map (\<lambda>l. l @ [CHR 0x0A]) ls) @ final)"
    by (rule splitlines_from_newline)
  finally show ?case using Cons by simp
qed

text \<open>
  Claim C8 (as the code has it). Loading the plain-text reference file treats each line
  as one identifier, including empty lines: for a text made of lines that each end in a
  newline, followed by an optional last line without one, the reference set is exactly
  the set of those lines. The newline that ends the last line adds nothing, so the empty
  string is a member only when some line of the file is empty.
\<close>

theorem quixbugs_set_is_set_of_lines:
  assumes "quixbugs_txt w = Text (concat (map (\<lambda>l. l @ [CHR 0x0A]) ls) @ final)"
    and "\<forall>l\<in>set ls. \<forall>c\<in>set l. \<not> is_linebreak c"
    and "\<forall>c\<in>set final. \<not> is_linebreak c"
    and "read_dataset_files w = Inr rs"
  shows "QUIXBUGS_SET rs = set ls \<union> (if final = [] then {} else {final})"
proof -
  have "QUIXBUGS_SET rs = set (splitlines (concat (map (\<lambda>l. l @ [CHR 0x0A]) ls) @ final))"
    using assms(1,4) unfolding read_dataset_files_def
    by (auto split: json_file.splits sum.splits)
  also have "\<dots> = set (ls @ (if final = [] then [] else [final]))"
    unfolding splitlines_def using splitlines_from_lines [OF assms(2,3)] by simp
  finally show ?thesis by auto
qed

text \<open>
  A file with the three lines \<^verbatim>\<open>a\<close>, the empty line and \<^verbatim>\<open>b\<close>, each ended by a newline:
  the empty line is a member, and the last newline adds nothing.
\<close>

theorem quixbugs_set_is_set_of_lines_witness:
  "quixbugs_txt world_lines = Text (concat (map (\<lambda>l. l @ [CHR 0x0A]) [''a'', [], ''b'']) @ [])
   \<and> read_dataset_files world_lines = Inr refs_lines
   \<and> QUIXBUGS_SET refs_lines = {''a'', [], ''b''}"
proof -
  have t: "quixbugs_txt world_lines =
             Text (concat (map (\<lambda>l. l @ [CHR 0x0A]) [''a'', [], ''b'']) @ [])"
    by (simp add: world_lines_def)
  have r: "read_dataset_files world_lines = Inr refs_lines"
    by (simp add: world_lines_def refs_lines_def read_dataset_files_def splitlines_def
          is_linebreak_def)
  have "QUIXBUGS_SET refs_lines = set [''a'', [], ''b''] \<union> (if [] = ([]::string) then {} else {[]})"
    by (rule quixbugs_set_is_set_of_lines [OF t _ _ r]) (simp_all add: is_linebreak_def)
  then show ?thesis using t r by simp
qed

text \<open>
  Claim C8 as stated fails: the text \<^verbatim>\<open>a\<close>, newline, \<^verbatim>\<open>b\<close>, newline ends in a trailing
  newline, and the empty string is not a member of the set loaded from it.
\<close>

theorem trailing_newline_counterexample:
  "read_dataset_files world_trailing = Inr \<lparr>QUIXBUGS_SET = {''a'', ''b''}, BUGSWARM_SET = {}\<rparr>
   \<and> [] \<notin> {''a'', ''b''}"
  by (simp add: world_trailing_def read_dataset_files_def splitlines_def is_linebreak_def)

lemma image_tags_errors: "image_tags bugs = Inl e \<Longrightarrow> e = KeyError \<or> e = TypeError"
proof (induction bugs)
  case Nil
  then show ?case by simp
next
  case (Cons b bugs)
  show ?case
  proof (cases b)
    case (JObject kvs)
    then show ?thesis using Cons
      by (auto split: option.splits sum.splits if_splits)
  qed (use Cons in auto)
qed

lemma py_iter_errors: "py_iter j = Inl e \<Longrightarrow> e = TypeError"
  by (cases j) auto

lemma py_read_text_errors:
  "py_read_text f = Inl e \<Longrightarrow> e = FileNotFoundError \<or> e = UnicodeDecodeError"
  by (cases f) auto

lemma py_json_load_errors:
  assumes "py_json_load f = Inl e"
  shows "e \<in> {FileNotFoundError, UnicodeDecodeError, JSONDecodeError, RecursionError}"
proof (cases f)
  case (JsonMalformed m)
  then show ?thesis using assms by (cases m) auto
qed (use assms in auto)

lemma read_dataset_files_errors:
  assumes "read_dataset_files w = Inl e"
  shows "e \<in> {FileNotFoundError, UnicodeDecodeError, JSONDecodeError, RecursionError,
               KeyError, TypeError}"
proof (cases "py_read_text (quixbugs_txt w)")
  case (Inl e1)
  then show ?thesis
    using assms py_read_text_errors [OF Inl] by (auto simp: read_dataset_files_def)
next
  case t: (Inr content)
  show ?thesis
  proof (cases "py_json_load (export_json w)")
    case (Inl e2)
    then show ?thesis
      using assms t py_json_load_errors [OF Inl] by (auto simp: read_dataset_files_def)
  next
    case j: (Inr doc)
    show ?thesis
    proof (cases "py_iter doc")
      case (Inl e3)
      then show ?thesis
        using assms t j py_iter_errors [OF Inl] by (auto simp: read_dataset_files_def)
    next
      case i: (Inr bugs)
      show ?thesis
      proof (cases "image_tags bugs")
        case (Inl e4)
        then show ?thesis
          using assms t j i image_tags_errors [OF Inl] by (auto simp: read_dataset_files_def)
      next
        case (Inr tags)
        then show ?thesis
          using assms t j i by (simp add: read_dataset_files_def)
      qed
    qed
  qed
qed

lemma read_dataset_files_ignores_tree:
  "read_dataset_files (w\<lparr>tree := t\<rparr>) = read_dataset_files w"
  by (simp add: read_dataset_files_def split: sum.splits)

lemma lacks_field_untagged: "lacks_field b \<Longrightarrow> \<not> tagged b"
  by (cases b) auto

lemma image_tags_first_untagged:
  "list_all tagged good \<Longrightarrow> \<not> tagged b \<Longrightarrow>
     image_tags (good @ b # rest) = Inl (if lacks_field b then KeyError else TypeError)"
proof (induction good)
  case Nil
  show ?case
  proof (cases b)
    case (JObject kvs)
    then show ?thesis using Nil by (cases "map_of kvs ''image_tag''") auto
  qed auto
next
  case (Cons g good)
  then obtain kvs v where g: "g = JObject kvs" "map_of kvs ''image_tag'' = Some v" "hashable v"
    by (cases g) (auto split: option.splits)
  have "image_tags (good @ b # rest) = Inl (if lacks_field b then KeyError else TypeError)"
    using Cons by simp
  then show ?case using g by simp
qed

lemma first_untagged:
  assumes "\<exists>b\<in>set bugs. \<not> tagged b"
  shows "\<exists>good b rest. bugs = good @ b # rest \<and> list_all tagged good \<and> \<not> tagged b"
proof -
  obtain good b rest where "bugs = good @ b # rest" "\<not> tagged b" "\<forall>g\<in>set good. \<not> \<not> tagged g"
    using split_list_first_prop [OF assms] by blast
  then have "bugs = good @ b # rest \<and> list_all tagged good \<and> \<not> tagged b"
    by (simp add: list_all_iff)
  then show ?thesis by blast
qed

lemma read_array:
  assumes "quixbugs_txt w = Text t" and "export_json w = JsonParsed (JArray bugs)"
  shows "read_dataset_files w =
           (case image_tags bugs of
              Inl e \<Rightarrow> Inl e
            | Inr tags \<Rightarrow> Inr \<lparr>QUIXBUGS_SET = set (splitlines t), BUGSWARM_SET = set tags\<rparr>)"
  using assms by (simp add: read_dataset_files_def)

text \<open>
  Claim C7 (as the code has it). Reference loading fails with an unhandled exception of
  Python's own, never a \<^verbatim>\<open>ReferenceLoadError\<close>, which the code does not define:
  \<^item> if the plain-text file is missing (\<^verbatim>\<open>FileNotFoundError\<close>) or malformed, that is, not
    text (\<^verbatim>\<open>UnicodeDecodeError\<close>);
  \<^item> if the JSON file is missing (\<^verbatim>\<open>FileNotFoundError\<close>) or malformed (the exception
    \<^verbatim>\<open>json.load\<close> raises for it);
  \<^item> if the field \<^verbatim>\<open>image_tag\<close> is absent on any record of the JSON array: loading then
    stops at the first element that is not a tagged record, with \<^verbatim>\<open>KeyError\<close> when that
    element is an object without the field and with \<^verbatim>\<open>TypeError\<close> otherwise.
  Every failure of the loading ends the run with that exception and nothing printed,
  whatever the repository holds: no dataset is looked at.
\<close>

theorem reference_load_failure_is_fatal:
  "(quixbugs_txt w = TextMissing \<longrightarrow> read_dataset_files w = Inl FileNotFoundError)
   \<and> (quixbugs_txt w = TextUndecodable \<longrightarrow> read_dataset_files w = Inl UnicodeDecodeError)
   \<and> ((\<exists>t. quixbugs_txt w = Text t) \<longrightarrow>
        (export_json w = JsonMissing \<longrightarrow> read_dataset_files w = Inl FileNotFoundError)
        \<and> (\<forall>m. export_json w = JsonMalformed m \<longrightarrow>
               read_dataset_files w = Inl (malformation_error m))
        \<and> (\<forall>good b rest.
               export_json w = JsonParsed (JArray (good @ b # rest)) \<and>
               list_all tagged good \<and> \<not> tagged b \<longrightarrow>
               read_dataset_files w = Inl (if lacks_field b then KeyError else TypeError))
        \<and> (\<forall>bugs.
               export_json w = JsonParsed (JArray bugs) \<and> (\<exists>b\<in>set bugs. lacks_field b) \<longrightarrow>
               (\<exists>good b rest.
                   bugs = good @ b # rest \<and> list_all tagged good \<and> \<not> tagged b \<and>
                   read_dataset_files w = Inl (if lacks_field b then KeyError else TypeError))))
   \<and> (\<forall>e. read_dataset_files w = Inl e \<longrightarrow>
          e \<noteq> ReferenceLoadError \<and>
          (\<forall>t p. validate (w\<lparr>tree := t\<rparr>) p = ([], Raised e)))"
proof -
  have 1: "quixbugs_txt w = TextMissing \<longrightarrow> read_dataset_files w = Inl FileNotFoundError"
    by (simp add: read_dataset_files_def)
  have 2: "quixbugs_txt w = TextUndecodable \<longrightarrow> read_dataset_files w = Inl UnicodeDecodeError"
    by (simp add: read_dataset_files_def)
  have 3: "export_json w = JsonMissing \<longrightarrow> read_dataset_files w = Inl FileNotFoundError"
    if "quixbugs_txt w = Text t" for t
    using that by (simp add: read_dataset_files_def)
  have 4: "\<forall>m. export_json w = JsonMalformed m \<longrightarrow>
             read_dataset_files w = Inl (malformation_error m)"
    if "quixbugs_txt w = Text t" for t
    using that by (simp add: read_dataset_files_def)
  have 5: "read_dataset_files w = Inl (if lacks_field b then KeyError else TypeError)"
    if "quixbugs_txt w = Text t" "export_json w = JsonParsed (JArray (good @ b # rest))"
      "list_all tagged good" "\<not> tagged b" for t good b rest
    using read_array [OF that(1,2)] image_tags_first_untagged [OF that(3,4), of rest] by simp
  have 6: "\<exists>good b rest.
             bugs = good @ b # rest \<and> list_all tagged good \<and> \<not> tagged b \<and>
             read_dataset_files w = Inl (if lacks_field b then KeyError else TypeError)"
    if t: "quixbugs_txt w = Text t" and j: "export_json w = JsonParsed (JArray bugs)"
      and l: "\<exists>b\<in>set bugs. lacks_field b" for t bugs
  proof -
    have "\<exists>b\<in>set bugs. \<not> tagged b"
      using l lacks_field_untagged by blast
    then obtain good b rest where
      d: "bugs = good @ b # rest" "list_all tagged good" "\<not> tagged b"
      using first_untagged by blast
    have "read_dataset_files w = Inl (if lacks_field b then KeyError else TypeError)"
      using 5 [OF t j [unfolded d(1)] d(2,3)] .
    then show ?thesis using d by blast
  qed
  have 7: "e \<noteq> ReferenceLoadError \<and> (\<forall>t p. validate (w\<lparr>tree := t\<rparr>) p = ([], Raised e))"
    if "read_dataset_files w = Inl e" for e
  proof -
    have "e \<noteq> ReferenceLoadError"
      using read_dataset_files_errors [OF that] by auto
    moreover have "validate (w\<lparr>tree := t\<rparr>) p = ([], Raised e)" for t p
      using that by (simp add: validate_def read_dataset_files_ignores_tree)
    ultimately show ?thesis by blast
  qed
  have 8: "(\<exists>t. quixbugs_txt w = Text t) \<longrightarrow>
        (export_json w = JsonMissing \<longrightarrow> read_dataset_files w = Inl FileNotFoundError)
        \<and> (\<forall>m. export_json w = JsonMalformed m \<longrightarrow>
               read_dataset_files w = Inl (malformation_error m))
        \<and> (\<forall>good b rest.
               export_json w = JsonParsed (JArray (good @ b # rest)) \<and>
               list_all tagged good \<and> \<not> tagged b \<longrightarrow>
               read_dataset_files w = Inl (if lacks_field b then KeyError else TypeError))
        \<and> (\<forall>bugs.
               export_json w = JsonParsed (JArray bugs) \<and> (\<exists>b\<in>set bugs. lacks_field b) \<longrightarrow>
               (\<exists>good b rest.
                   bugs = good @ b # rest \<and> list_all tagged good \<and> \<not> tagged b \<and>
                   read_dataset_files w = Inl (if lacks_field b then KeyError else TypeError)))"
  proof
    assume "\<exists>t. quixbugs_txt w = Text t"
    then obtain t where t: "quixbugs_txt w = Text t" ..
    show "(export_json w = JsonMissing \<longrightarrow> read_dataset_files w = Inl FileNotFoundError)
        \<and> (\<forall>m. export_json w = JsonMalformed m \<longrightarrow>
               read_dataset_files w = Inl (malformation_error m))
        \<and> (\<forall>good b rest.
               export_json w = JsonParsed (JArray (good @ b # rest)) \<and>
               list_all tagged good \<and> \<not> tagged b \<longrightarrow>
               read_dataset_files w = Inl (if lacks_field b then KeyError else TypeError))
        \<and> (\<forall>bugs.
               export_json w = JsonParsed (JArray bugs) \<and> (\<exists>b\<in>set bugs. lacks_field b) \<longrightarrow>
               (\<exists>good b rest.
                   bugs = good @ b # rest \<and> list_all tagged good \<and> \<not> tagged b \<and>
                   read_dataset_files w = Inl (if lacks_field b then KeyError else TypeError)))"
    proof (intro conjI allI impI)
      show "export_json w = JsonMissing \<Longrightarrow> read_dataset_files w = Inl FileNotFoundError"
        using 3 [OF t] by simp
    next
      fix m show "export_json w = JsonMalformed m \<Longrightarrow>
                    read_dataset_files w = Inl (malformation_error m)"
        using 4 [OF t] by simp
    next
      fix good b rest
      assume "export_json w = JsonParsed (JArray (good @ b # rest)) \<and>
              list_all tagged good \<and> \<not> tagged b"
      then show "read_dataset_files w = Inl (if lacks_field b then KeyError else TypeError)"
        using 5 [OF t] by simp
    next
      fix bugs
      assume "export_json w = JsonParsed (JArray bugs) \<and> (\<exists>b\<in>set bugs. lacks_field b)"
      then show "\<exists>good b rest.
                   bugs = good @ b # rest \<and> list_all tagged good \<and> \<not> tagged b \<and>
                   read_dataset_files w = Inl (if lacks_field b then KeyError else TypeError)"
        using 6 [OF t] by simp
    qed
  qed
  have 9: "\<forall>e. read_dataset_files w = Inl e \<longrightarrow>
          e \<noteq> ReferenceLoadError \<and>
          (\<forall>t p. validate (w\<lparr>tree := t\<rparr>) p = ([], Raised e))"
    using 7 by simp
  show ?thesis
    using 1 2 8 9 by (intro conjI)
qed

text \<open>
  A JSON array whose second record has no \<^verbatim>\<open>image_tag\<close>: loading raises \<^verbatim>\<open>KeyError\<close> and
  the run prints nothing.
\<close>

theorem reference_load_failure_is_fatal_witness:
  "read_dataset_files world_no_tag = Inl KeyError
   \<and> validate world_no_tag [''repo''] = ([], Raised KeyError)"
proof -
  let ?first = "JObject [(''image_tag'', JString ''t1'')]"
  let ?second = "JObject [(''build'', JNumber 7)]"
  have t: "\<exists>t. quixbugs_txt world_no_tag = Text t"
    by (simp add: world_no_tag_def)
  have j: "export_json world_no_tag = JsonParsed (JArray ([?first] @ ?second # []))"
    by (simp add: world_no_tag_def)
  have g: "list_all tagged [?first]" "\<not> tagged ?second" "lacks_field ?second"
    by simp_all
  have w: "world_no_tag\<lparr>tree := tree world_no_tag\<rparr> = world_no_tag"
    by simp
  note T = reference_load_failure_is_fatal [of world_no_tag]
  note A = T [THEN conjunct2, THEN conjunct2, THEN conjunct1, THEN mp, OF t]
  note B = A [THEN conjunct2, THEN conjunct2, THEN conjunct1, rule_format]
  note C = T [THEN conjunct2, THEN conjunct2, THEN conjunct2, rule_format]
  have "read_dataset_files world_no_tag =
          Inl (if lacks_field ?second then KeyError else TypeError)"
    by (rule B [of "[?first]" ?second "[]"]) (use j g in simp)
  then have r: "read_dataset_files world_no_tag = Inl KeyError"
    by simp
  have "validate (world_no_tag\<lparr>tree := tree world_no_tag\<rparr>) [''repo''] =
          ([], Raised KeyError)"
    using C [OF r] by blast
  then show ?thesis using r w by simp
qed

text \<open>
  Claim C7 as stated fails: with the plain-text file missing the run ends in
  \<^verbatim>\<open>FileNotFoundError\<close>, not in a \<^verbatim>\<open>ReferenceLoadError\<close>.
\<close>

theorem reference_load_error_counterexample:
  "quixbugs_txt world_no_txt = TextMissing
   \<and> validate world_no_txt [''repo''] = ([], Raised FileNotFoundError)
   \<and> read_dataset_files world_no_txt \<noteq> Inl ReferenceLoadError"
  by (simp add: world_no_txt_def validate_def read_dataset_files_def)

section \<open>Facts about printing and path resolution\<close>



lemma printed_print [simp]: "printed (print l st) = printed st @ [l]"
  by (simp add: print_def)

lemma validate_pass_print [simp]: "validate_pass (print l st) = validate_pass st"
  by (simp add: print_def)

lemma printed_fail [simp]: "printed (fail l st) = printed st @ [l]"
  by (simp add: fail_def)

lemma validate_pass_fail [simp]: "validate_pass (fail l st) = False"
  by (simp add: fail_def)

lemma resolve_append:
  "resolve n (p @ q) = (case resolve n p of None \<Rightarrow> None | Some m \<Rightarrow> resolve m q)"
  by (induction n p rule: resolve.induct) (auto split: option.splits)

lemma exists_prefix: "exists fs (p @ q) \<Longrightarrow> exists fs p"
  by (auto simp: exists_def resolve_append split: option.splits)


section \<open>Facts about the loops\<close>

lemma folder_passes_continue:
  assumes "folder_passes fs folder" and "validate_pass st"
  shows "validate_folder fs dv folder st = (st, Continue)"
proof -
  have v: "check_versions fs dv folder st = st"
    using assms(1) by (simp add: check_versions_def folder_passes_def has_versions_and_tests_def)
  have t: "check_test_files fs dv folder st = st"
    using assms(1) by (simp add: check_test_files_def folder_passes_def has_versions_and_tests_def)
  have c: "check_coverage fs dv folder st = (st, Continue)"
    using assms(1) by (simp add: check_coverage_def folder_passes_def)
  show ?thesis
    using assms(2) by (simp add: validate_folder_def v t c)
qed

lemma folders_pass_continue:
  "list_all (folder_passes fs) folders \<Longrightarrow> validate_pass st \<Longrightarrow>
     validate_folders fs dv folders st = (st, Continue)"
  by (induction folders) (simp_all add: folder_passes_continue)

lemma dataset_passes_continue:
  assumes "dataset_passes fs rs repo_path d" and "validate_pass st"
  shows "validate_dataset fs rs repo_path d st = (st, Continue)"
proof -
  obtain candidates where
    c: "list_bug_candidates fs rs (repo_path @ [dataset_value d]) (dataset_value d) = Inr candidates"
      "dataset_requirements d \<le> length candidates" "list_all (folder_passes fs) candidates"
    and e: "exists fs (repo_path @ [dataset_value d])"
    using assms(1) by (auto simp: dataset_passes_def split: sum.splits)
  show ?thesis
    using c e assms(2) by (simp add: validate_dataset_def folders_pass_continue)
qed

lemma datasets_pass_continue:
  "list_all (dataset_passes fs rs repo_path) ds \<Longrightarrow> validate_pass st \<Longrightarrow>
     validate_datasets fs rs repo_path ds st = (st, Continue)"
  by (induction ds) (simp_all add: dataset_passes_continue)

lemma validate_folders_append:
  "validate_folders fs dv earlier st = (st', Continue) \<Longrightarrow>
     validate_folders fs dv (earlier @ folders) st = validate_folders fs dv folders st'"
proof (induction earlier arbitrary: st)
  case Nil
  then show ?case by simp
next
  case (Cons f earlier)
  obtain s1 fl where r: "validate_folder fs dv f st = (s1, fl)"
    by (cases "validate_folder fs dv f st")
  then have "fl = Continue" using Cons.prems by (cases fl) auto
  then show ?case using Cons r by simp
qed

lemma validate_datasets_append:
  "validate_datasets fs rs repo_path before st = (st', Continue) \<Longrightarrow>
     validate_datasets fs rs repo_path (before @ ds) st = validate_datasets fs rs repo_path ds st'"
proof (induction before arbitrary: st)
  case Nil
  then show ?case by simp
next
  case (Cons d before)
  obtain s1 fl where r: "validate_dataset fs rs repo_path d st = (s1, fl)"
    by (cases "validate_dataset fs rs repo_path d st")
  then have "fl = Continue" using Cons.prems by (cases fl) auto
  then show ?case using Cons r by simp
qed

lemma check_versions_present:
  assumes "exists fs (folder @ [''Buggy-Version''])" and "exists fs (folder @ [''Patched-Version''])"
    and "exists fs (folder @ [''test.txt''])"
  shows "check_versions fs dv folder st = st"
  using assms by (simp add: check_versions_def)

lemma check_test_files_lines:
  "check_test_files fs dv folder st =
     (if test_file_lines fs dv folder = [] then st
      else st\<lparr>printed := printed st @ test_file_lines fs dv folder, validate_pass := False\<rparr>)"
  by (simp add: check_test_files_def test_file_lines_def fail_def print_def)

lemma missing_root_returns:
  assumes "\<not> exists fs (repo_path @ [dataset_value d])"
  shows "validate_datasets fs rs repo_path (d # ds) st =
           (print (''[FAIL] No '' @ dataset_value d @ '' folder'') st, Return)"
  using assms by (simp add: validate_dataset_def)

lemma printed_check_versions:
  "\<exists>more. printed (check_versions fs dv folder st) = printed st @ more"
  by (simp add: check_versions_def Let_def)

lemma printed_check_test_files:
  "\<exists>more. printed (check_test_files fs dv folder st) = printed st @ more"
  by (simp add: check_test_files_lines)

lemma printed_check_coverage:
  "\<exists>more. printed (fst (check_coverage fs dv folder st)) = printed st @ more"
  by (simp add: check_coverage_def)

lemma printed_validate_folder:
  "\<exists>more. printed (fst (validate_folder fs dv folder st)) = printed st @ more"
proof -
  let ?s1 = "check_versions fs dv folder st"
  let ?s2 = "check_test_files fs dv folder ?s1"
  obtain m1 where m1: "printed ?s1 = printed st @ m1"
    using printed_check_versions by blast
  obtain m2 where m2: "printed ?s2 = printed ?s1 @ m2"
    using printed_check_test_files by blast
  obtain m3 where m3: "printed (fst (check_coverage fs dv folder ?s2)) = printed ?s2 @ m3"
    using printed_check_coverage by blast
  have "validate_folder fs dv folder st = (?s1, Return) \<or>
        validate_folder fs dv folder st = (?s2, Return) \<or>
        validate_folder fs dv folder st = check_coverage fs dv folder ?s2"
    by (simp add: validate_folder_def Let_def)
  then show ?thesis
    using m1 m2 m3 by auto
qed

lemma printed_validate_folders:
  "\<exists>more. printed (fst (validate_folders fs dv folders st)) = printed st @ more"
proof (induction folders arbitrary: st)
  case Nil
  then show ?case by simp
next
  case (Cons f folders)
  obtain s1 fl where r: "validate_folder fs dv f st = (s1, fl)"
    by (cases "validate_folder fs dv f st")
  obtain m1 where m1: "printed s1 = printed st @ m1"
    using printed_validate_folder [of fs dv f st] r by auto
  show ?case
  proof (cases fl)
    case Continue
    obtain m2 where "printed (fst (validate_folders fs dv folders s1)) = printed s1 @ m2"
      using Cons.IH by blast
    then show ?thesis using r Continue m1 by simp
  next
    case Return
    then show ?thesis using r m1 by simp
  next
    case (Raise e)
    then show ?thesis using r m1 by simp
  qed
qed

lemma check_versions_keeps_failure:
  "\<not> validate_pass st \<Longrightarrow> \<not> validate_pass (check_versions fs dv folder st)"
  by (simp add: check_versions_def Let_def)

lemma failed_flag_returns_after_versions:
  "\<not> validate_pass st \<Longrightarrow>
     validate_folders fs dv (folder # rest) st = (check_versions fs dv folder st, Return)"
  using check_versions_keeps_failure [of st fs dv folder]
  by (simp add: validate_folder_def Let_def)


section \<open>Decimal numerals\<close>

lemma str_nat_digits: "str_nat n \<noteq> [] \<and> list_all is_digit (str_nat n)"
proof (induction n rule: str_nat.induct)
  case (1 n)
  have d: "is_digit (''0123456789'' ! k)" if "k < 10" for k
  proof -
    from that have "k \<in> {0, 1, 2, 3, 4, 5, 6, 7, 8, 9}" by auto
    then show ?thesis by (auto simp: is_digit_def)
  qed
  show ?case
  proof (cases "n < 10")
    case True
    then show ?thesis using d [of n] by (simp add: str_nat.simps [of n])
  next
    case False
    then show ?thesis using 1 d [of "n mod 10"] by (simp add: str_nat.simps [of n])
  qed
qed

lemma str_nat_nonempty: "str_nat n \<noteq> []"
  by (simp add: str_nat.simps [of n])

lemma digit_index_inj:
  assumes "i < 10" and "j < 10" and "''0123456789'' ! i = ''0123456789'' ! j"
  shows "i = j"
proof -
  have "distinct ''0123456789''" by simp
  moreover have "i < length ''0123456789''" "j < length ''0123456789''" using assms by simp_all
  ultimately show ?thesis using assms(3) nth_eq_iff_index_eq by blast
qed

lemma str_nat_inj: "str_nat n = str_nat m \<Longrightarrow> n = m"
proof (induction n arbitrary: m rule: str_nat.induct)
  case (1 n)
  show ?case
  proof (cases "n < 10")
    case n: True
    show ?thesis
    proof (cases "m < 10")
      case True
      then show ?thesis
        using n "1.prems" digit_index_inj [of n m]
        by (simp add: str_nat.simps [of n] str_nat.simps [of m])
    next
      case False
      then have "length (str_nat m) = Suc (length (str_nat (m div 10)))"
        by (simp add: str_nat.simps [of m])
      moreover have "length (str_nat n) = 1"
        using n by (simp add: str_nat.simps [of n])
      ultimately show ?thesis
        using "1.prems" str_nat_nonempty [of "m div 10"] by simp
    qed
  next
    case n: False
    show ?thesis
    proof (cases "m < 10")
      case True
      then have "length (str_nat m) = 1"
        by (simp add: str_nat.simps [of m])
      moreover have "length (str_nat n) = Suc (length (str_nat (n div 10)))"
        using n by (simp add: str_nat.simps [of n])
      ultimately show ?thesis
        using "1.prems" str_nat_nonempty [of "n div 10"] by simp
    next
      case False
      then have e: "str_nat (n div 10) = str_nat (m div 10)"
        "''0123456789'' ! (n mod 10) = ''0123456789'' ! (m mod 10)"
        using n "1.prems" by (simp_all add: str_nat.simps [of n] str_nat.simps [of m])
      have "n div 10 = m div 10" using "1.IH" [OF n e(1)] .
      moreover have "n mod 10 = m mod 10"
        using e(2) digit_index_inj [of "n mod 10" "m mod 10"] by simp
      ultimately show ?thesis
        by (metis div_mult_mod_eq)
    qed
  qed
qed


section \<open>Facts about the example repositories\<close>

lemma digit_not_linebreak: "is_digit c \<Longrightarrow> \<not> is_linebreak c"
  by (auto simp: is_digit_def is_linebreak_def)

lemma length_numbered: "length (numbered stem n) = n"
  by (simp add: numbered_def)

lemma numbered_elem: "x \<in> set (numbered stem n) \<Longrightarrow> \<exists>i. x = stem @ str_nat i"
  by (auto simp: numbered_def)

lemma image_tags_records:
  "image_tags (map (\<lambda>t. JObject [(''image_tag'', JString t)]) ts) = Inr (map JString ts)"
  by (induction ts) simp_all

lemma read_numbered_references:
  assumes "quixbugs_txt w = Text (concat (map (\<lambda>l. l @ [CHR 0x0A]) (numbered ''q'' 20)))"
    and "export_json w = JsonParsed (JArray (map (\<lambda>t. JObject [(''image_tag'', JString t)])
                                               (numbered ''tag-'' 20)))"
  shows "read_dataset_files w = Inr refs_conformant"
proof -
  have nl: "\<forall>l\<in>set (numbered ''q'' 20). \<forall>c\<in>set l. \<not> is_linebreak c"
  proof (intro ballI)
    fix l c assume "l \<in> set (numbered ''q'' 20)" and c: "c \<in> set l"
    then obtain i where "l = ''q'' @ str_nat i" using numbered_elem by blast
    then have "c = CHR ''q'' \<or> c \<in> set (str_nat i)" using c by auto
    then show "\<not> is_linebreak c"
    proof
      assume "c = CHR ''q''" then show ?thesis by (simp add: is_linebreak_def)
    next
      assume "c \<in> set (str_nat i)"
      then have "is_digit c" using str_nat_digits [of i] by (simp add: list_all_iff)
      then show ?thesis by (rule digit_not_linebreak)
    qed
  qed
  have "splitlines (concat (map (\<lambda>l. l @ [CHR 0x0A]) (numbered ''q'' 20)) @ []) =
          numbered ''q'' 20 @ (if [] = ([]::string) then [] else [[]])"
    unfolding splitlines_def by (rule splitlines_from_lines [OF nl]) simp
  then have "splitlines (concat (map (\<lambda>l. l @ [CHR 0x0A]) (numbered ''q'' 20))) = numbered ''q'' 20"
    by simp
  then show ?thesis
    using assms by (simp add: read_dataset_files_def refs_conformant_def image_tags_records)
qed

lemma map_of_constant:
  "map_of (map (\<lambda>n. (n, t)) names) n = (if n \<in> set names then Some t else None)"
  by (induction names) auto

lemma resolve_in_folder_of:
  assumes "resolve fs p = Some (folder_of t names)" and "n \<in> set names"
  shows "resolve fs (p @ [n]) = Some t"
  using assms by (simp add: resolve_append folder_of_def map_of_constant)

lemma candidate_with_checks:
  assumes "resolve fs p = Some (candidate_with covs)"
  shows "has_versions_and_tests fs p"
    and "exists fs (p @ [''Coverage''])"
    and "exists fs (p @ [''Coverage'', c]) \<longleftrightarrow> c \<in> set covs"
proof -
  have r: "resolve fs (p @ q) = resolve (candidate_with covs) q" for q
    using assms by (simp add: resolve_append)
  have w: "os_walk fs (p @ q) =
             (case resolve (candidate_with covs) q of None \<Rightarrow> [] | Some n \<Rightarrow> walk (p @ q) n)" for q
    by (simp add: os_walk_def r)
  have 1: "exists fs (p @ [''Buggy-Version''])" "exists fs (p @ [''Patched-Version''])"
    "exists fs (p @ [''test.txt''])"
    by (simp_all add: exists_def r candidate_with_def)
  have 2: "find_randoop_test_files fs (p @ [''Buggy-Version'']) \<noteq> []"
    "find_randoop_test_files fs (p @ [''Patched-Version'']) \<noteq> []"
    by (simp_all add: find_randoop_test_files_def find_test_files_def w candidate_with_def
          fnmatch_filter_def re_fullmatch_def randoop_glob_def)
  have 3: "find_evosuite_test_files fs (p @ [''Buggy-Version'']) \<noteq> []"
    "find_evosuite_test_files fs (p @ [''Patched-Version'']) \<noteq> []"
    by (simp_all add: find_evosuite_test_files_def find_test_files_def w candidate_with_def
          fnmatch_filter_def re_fullmatch_def evosuite_glob_def)
  show "has_versions_and_tests fs p"
    using 1 2 3 by (simp add: has_versions_and_tests_def)
  show "exists fs (p @ [''Coverage''])"
    by (simp add: exists_def r candidate_with_def)
  show "exists fs (p @ [''Coverage'', c]) \<longleftrightarrow> c \<in> set covs"
    by (simp add: exists_def r candidate_with_def map_of_constant)
qed

lemma candidate_tree_passes:
  assumes "resolve fs p = Some candidate_tree"
  shows "folder_passes fs p"
  using candidate_with_checks [OF assms [unfolded candidate_tree_def]]
  by (simp add: folder_passes_def coverage_subfolders_def)

lemma dir_candidates_folder_of:
  assumes "resolve fs p = Some (folder_of (Dir es) names)" and "\<forall>n\<in>set names. rule n"
  shows "dir_candidates fs p rule = Inr (map (\<lambda>n. p @ [n]) names)"
proof -
  have i: "iterdir fs p = Inr (map (\<lambda>n. p @ [n]) names)"
    using assms(1) by (simp add: iterdir_def folder_of_def comp_def)
  have "is_dir fs (p @ [n]) \<and> rule (name (p @ [n]))" if "n \<in> set names" for n
    using resolve_in_folder_of [OF assms(1) that] assms(2) that
    by (simp add: is_dir_def name_def)
  then have "filter (\<lambda>folder. is_dir fs folder \<and> rule (name folder)) (map (\<lambda>n. p @ [n]) names)
               = map (\<lambda>n. p @ [n]) names"
    by (simp add: filter_id_conv)
  then show ?thesis
    by (simp add: dir_candidates_def i)
qed

lemma folder_of_passes:
  assumes "resolve fs (repo_path @ [dataset_value d]) = Some (folder_of candidate_tree names)"
    and "list_bug_candidates fs rs (repo_path @ [dataset_value d]) (dataset_value d) =
           Inr (map (\<lambda>n. repo_path @ [dataset_value d] @ [n]) names)"
    and "dataset_requirements d \<le> length names"
  shows "dataset_passes fs rs repo_path d"
proof -
  have "folder_passes fs ((repo_path @ [dataset_value d]) @ [n])" if "n \<in> set names" for n
    using resolve_in_folder_of [OF assms(1) that] by (rule candidate_tree_passes)
  then have "list_all (folder_passes fs) (map (\<lambda>n. repo_path @ [dataset_value d] @ [n]) names)"
    by (simp add: list_all_iff)
  then show ?thesis
    using assms by (simp add: dataset_passes_def exists_def)
qed

lemma lang_names_match: "\<forall>n\<in>set (numbered ''Lang_'' k). re_match defects4j_pattern n"
proof
  fix n assume "n \<in> set (numbered ''Lang_'' k)"
  then obtain i where n: "n = ''Lang_'' @ str_nat i" using numbered_elem by blast
  obtain d rest where s: "str_nat i = d # rest" "is_digit d"
    using str_nat_digits [of i] by (cases "str_nat i") auto
  have "''Lang'' \<in> set DEFECTS4J_CATEGORY" by (simp add: DEFECTS4J_CATEGORY_def)
  moreover have "n = ''Lang'' @ ''_'' @ d # rest" using n s by simp
  ultimately show "re_match defects4j_pattern n"
    unfolding re_match_defects4j using s(2) by blast
qed

lemma defects4j_folder_passes:
  assumes "resolve fs ([''repo''] @ [dataset_value DEFECTS4J]) =
             Some (folder_of candidate_tree (numbered ''Lang_'' 68))"
  shows "dataset_passes fs rs [''repo''] DEFECTS4J"
  using dir_candidates_folder_of [OF assms [unfolded candidate_tree_def candidate_with_def]
          lang_names_match]
  by (intro folder_of_passes [OF assms])
     (simp_all add: list_bug_candidates_def length_numbered dataset_requirements_def)

lemma quixbugs_folder_passes:
  assumes "resolve fs ([''repo''] @ [dataset_value QUIXBUGS]) =
             Some (folder_of candidate_tree (numbered ''q'' 20))"
  shows "dataset_passes fs refs_conformant [''repo''] QUIXBUGS"
proof -
  have m: "\<forall>n\<in>set (numbered ''q'' 20). n \<in> QUIXBUGS_SET refs_conformant"
    by (simp add: refs_conformant_def)
  show ?thesis
    using dir_candidates_folder_of [OF assms [unfolded candidate_tree_def candidate_with_def] m]
    by (intro folder_of_passes [OF assms])
       (simp_all add: list_bug_candidates_def length_numbered dataset_requirements_def)
qed

lemma bears_folder_passes:
  assumes "resolve fs ([''repo''] @ [dataset_value BEARS]) =
             Some (folder_of candidate_tree (numbered ''Bears-'' 20))"
  shows "dataset_passes fs rs [''repo''] BEARS"
proof -
  have m: "\<forall>n\<in>set (numbered ''Bears-'' 20). startswith n ''Bears-''"
    by (auto simp: numbered_def startswith_def)
  show ?thesis
    using dir_candidates_folder_of [OF assms [unfolded candidate_tree_def candidate_with_def] m]
    by (intro folder_of_passes [OF assms])
       (simp_all add: list_bug_candidates_def length_numbered dataset_requirements_def)
qed

lemma bugswarm_folder_passes:
  assumes "resolve fs ([''repo''] @ [dataset_value BUGSWARM]) =
             Some (folder_of candidate_tree (numbered ''tag-'' 20))"
  shows "dataset_passes fs refs_conformant [''repo''] BUGSWARM"
proof -
  have m: "\<forall>n\<in>set (numbered ''tag-'' 20). JString n \<in> BUGSWARM_SET refs_conformant"
    by (simp add: refs_conformant_def)
  show ?thesis
    using dir_candidates_folder_of [OF assms [unfolded candidate_tree_def candidate_with_def] m]
    by (intro folder_of_passes [OF assms])
       (simp_all add: list_bug_candidates_def length_numbered dataset_requirements_def)
qed

lemma world_conformant_all_pass:
  "all_pass (tree world_conformant) refs_conformant [''repo'']"
proof -
  let ?fs = "tree world_conformant"
  have r: "resolve ?fs ([''repo''] @ [dataset_value DEFECTS4J]) =
             Some (folder_of candidate_tree (numbered ''Lang_'' 68))"
    "resolve ?fs ([''repo''] @ [dataset_value QUIXBUGS]) =
       Some (folder_of candidate_tree (numbered ''q'' 20))"
    "resolve ?fs ([''repo''] @ [dataset_value BEARS]) =
       Some (folder_of candidate_tree (numbered ''Bears-'' 20))"
    "resolve ?fs ([''repo''] @ [dataset_value BUGSWARM]) =
       Some (folder_of candidate_tree (numbered ''tag-'' 20))"
    by (simp_all add: world_conformant_def)
  show ?thesis
    using defects4j_folder_passes [OF r(1)] quixbugs_folder_passes [OF r(2)]
      bears_folder_passes [OF r(3)] bugswarm_folder_passes [OF r(4)]
    by (simp add: all_pass_def all_datasets_def)
qed

lemma all_pass_prints_pass_line:
  assumes "read_dataset_files w = Inr rs" and "all_pass (tree w) rs repo_path"
  shows "validate w repo_path = ([''[PASS] Validation pass''], Returned)"
proof -
  have "validate_datasets (tree w) rs repo_path all_datasets \<lparr>printed = [], validate_pass = True\<rparr>
          = (\<lparr>printed = [], validate_pass = True\<rparr>, Continue)"
    using assms(2) by (simp add: all_pass_def datasets_pass_continue)
  then show ?thesis
    using assms(1) by (simp add: validate_def)
qed

section \<open>Success and failure output\<close>


lemma is_fail_line_tag [simp]:
  "is_fail_line (CHR ''['' # CHR ''F'' # CHR ''A'' # CHR ''I'' # CHR ''L'' # CHR '']'' # s)"
  by (simp add: is_fail_line_def startswith_def)

lemma pass_line_not_fail: "\<not> is_fail_line pass_line"
  by (simp add: is_fail_line_def startswith_def pass_line_def)

lemma consistent_fail: "consistent st \<Longrightarrow> consistent (fail (''[FAIL] '' @ s) st)"
  by (simp add: consistent_def)

lemma consistent_check_versions:
  "consistent st \<Longrightarrow> consistent (check_versions fs dv folder st)"
  using consistent_fail [of _ "''Incomplete versions in '' @ dv @ ''-'' @ name folder"]
    consistent_fail [of _ "''No failed test file in '' @ dv @ ''-'' @ name folder"]
  by (simp add: check_versions_def Let_def)

lemma consistent_check_test_files:
  "consistent st \<Longrightarrow> consistent (check_test_files fs dv folder st)"
  using consistent_fail [of _ "''No Randoop test files in '' @ dv @ ''-'' @ name folder @ ''/Buggy-Version''"]
    consistent_fail [of _ "''No Randoop test files in '' @ dv @ ''-'' @ name folder @ ''/Patched-Version''"]
    consistent_fail [of _ "''No Evosuite test files in '' @ dv @ ''-'' @ name folder @ ''/Buggy-Version''"]
    consistent_fail [of _ "''No Evosuite test files in '' @ dv @ ''-'' @ name folder @ ''/Patched-Version''"]
  by (simp add: check_test_files_def Let_def)

lemma in_order_print_Return:
  "list_all is_fail_line (printed st) \<Longrightarrow> in_order (print (''[FAIL] '' @ s) st, Return)"
  by (simp add: in_order_def)

lemma in_order_check_coverage:
  assumes "consistent st"
  shows "in_order (check_coverage fs dv folder st)"
proof -
  have a: "list_all is_fail_line (printed st)" using assms by (simp add: consistent_def)
  have c: "in_order (st, Continue)" using assms by (simp add: in_order_def)
  show ?thesis
    unfolding check_coverage_def
    using c
      in_order_print_Return [OF a, of "''No coverage folder in '' @ dv @ ''-'' @ name folder"]
      in_order_print_Return [OF a, of "''No coverage folder for Randoop in '' @ dv @ ''-'' @ name folder"]
      in_order_print_Return [OF a, of "''No coverage folder for Evosuite in '' @ dv @ ''-'' @ name folder"]
      in_order_print_Return [OF a, of "''No coverage folder for All in '' @ dv @ ''-'' @ name folder"]
    by simp
qed

lemma in_order_stopped:
  "consistent st \<Longrightarrow> \<not> validate_pass st \<Longrightarrow> in_order (st, Return)"
  by (simp add: in_order_def consistent_def)

lemma in_order_validate_folder:
  assumes "consistent st"
  shows "in_order (validate_folder fs dv folder st)"
  using consistent_check_versions [OF assms, of fs dv folder]
    consistent_check_test_files [OF consistent_check_versions [OF assms], of fs dv folder fs dv folder]
  by (simp add: validate_folder_def Let_def in_order_stopped in_order_check_coverage)

lemma in_order_validate_folders:
  "consistent st \<Longrightarrow> in_order (validate_folders fs dv folders st)"
proof (induction folders arbitrary: st)
  case Nil
  then show ?case by (simp add: in_order_def)
next
  case (Cons folder folders)
  obtain st' fl where r: "validate_folder fs dv folder st = (st', fl)"
    by (cases "validate_folder fs dv folder st")
  have o: "in_order (st', fl)"
    using in_order_validate_folder [OF Cons.prems, of fs dv folder] r by simp
  show ?case
  proof (cases fl)
    case Continue
    then have "consistent st'" using o by (simp add: in_order_def)
    then show ?thesis using Cons.IH r Continue by simp
  next
    case Return
    then show ?thesis using o r by simp
  next
    case (Raise e)
    then show ?thesis using o r by simp
  qed
qed

lemma in_order_validate_dataset:
  assumes "consistent st"
  shows "in_order (validate_dataset fs rs repo_path d st)"
proof (cases "exists fs (repo_path @ [dataset_value d])")
  case False
  have "list_all is_fail_line (printed st)" using assms by (simp add: consistent_def)
  then show ?thesis
    using False in_order_print_Return [of st "''No '' @ dataset_value d @ '' folder''"]
    by (simp add: validate_dataset_def)
next
  case True
  show ?thesis
  proof (cases "list_bug_candidates fs rs (repo_path @ [dataset_value d]) (dataset_value d)")
    case (Inl e)
    then show ?thesis
      using True assms by (simp add: validate_dataset_def in_order_def consistent_def)
  next
    case (Inr candidates)
    have "consistent (fail (''[FAIL] '' @ (''Missing ''
            @ str_int (int (dataset_requirements d) - int (length candidates))
            @ '' bugs in '' @ dataset_value d)) st)"
      using assms by (rule consistent_fail)
    then show ?thesis
      using True Inr assms
      by (simp add: validate_dataset_def Let_def in_order_validate_folders)
  qed
qed

lemma in_order_validate_datasets:
  "consistent st \<Longrightarrow> in_order (validate_datasets fs rs repo_path ds st)"
proof (induction ds arbitrary: st)
  case Nil
  then show ?case by (simp add: in_order_def)
next
  case (Cons d ds)
  obtain st' fl where r: "validate_dataset fs rs repo_path d st = (st', fl)"
    by (cases "validate_dataset fs rs repo_path d st")
  have o: "in_order (st', fl)"
    using in_order_validate_dataset [OF Cons.prems, of fs rs repo_path d] r by simp
  show ?case
  proof (cases fl)
    case Continue
    then have "consistent st'" using o by (simp add: in_order_def)
    then show ?thesis using Cons.IH r Continue by simp
  next
    case Return
    then show ?thesis using o r by simp
  next
    case (Raise e)
    then show ?thesis using o r by simp
  qed
qed

lemma consistent_start: "consistent \<lparr>printed = [], validate_pass = True\<rparr>"
  by (simp add: consistent_def)

text \<open>
  Claim C9 (as the code has it). In every run the success line and a failure
  diagnostic exclude each other. For every run of \<^verbatim>\<open>validate\<close> that returns, the success
  line is printed if and only if no line beginning with \<^verbatim>\<open>[FAIL]\<close> was printed, and a
  run that returns without a failure diagnostic prints the success line and nothing
  else. A run that an exception ends prints no success line, whether or not it printed
  a failure diagnostic.
\<close>

theorem pass_line_iff_no_failure_when_returned:
  assumes "validate w repo_path = (out, oc)"
  shows "(pass_line \<in> set out \<longrightarrow> \<not> (\<exists>l\<in>set out. is_fail_line l))
       \<and> (oc = Returned \<longrightarrow>
            (pass_line \<in> set out \<longleftrightarrow> \<not> (\<exists>l\<in>set out. is_fail_line l))
            \<and> (\<not> (\<exists>l\<in>set out. is_fail_line l) \<longrightarrow> out = [pass_line]))
       \<and> (\<forall>e. oc = Raised e \<longrightarrow> pass_line \<notin> set out)"
proof (cases "read_dataset_files w")
  case (Inl e)
  then show ?thesis using assms by (auto simp: validate_def)
next
  case (Inr rs)
  obtain st fl where r: "validate_datasets (tree w) rs repo_path all_datasets
                           \<lparr>printed = [], validate_pass = True\<rparr> = (st, fl)"
    by (cases "validate_datasets (tree w) rs repo_path all_datasets
                 \<lparr>printed = [], validate_pass = True\<rparr>")
  have o: "in_order (st, fl)"
    using in_order_validate_datasets [OF consistent_start, of "tree w" rs repo_path all_datasets] r
    by simp
  have nf: "\<not> is_fail_line pass_line" by (rule pass_line_not_fail)
  show ?thesis
  proof (cases fl)
    case Continue
    then have c: "consistent st" using o by (simp add: in_order_def)
    show ?thesis
    proof (cases "validate_pass st")
      case True
      then have "printed st = []" using c by (simp add: consistent_def)
      then have "out = [pass_line] \<and> oc = Returned"
        using assms Inr r Continue True by (simp add: validate_def pass_line_def)
      then show ?thesis using nf by simp
    next
      case False
      then have "printed st \<noteq> []" "list_all is_fail_line (printed st)"
        using c by (simp_all add: consistent_def)
      moreover have "out = printed st"
        using assms Inr r Continue False by (simp add: validate_def)
      ultimately show ?thesis using nf by (cases out) (auto simp: list_all_iff)
    qed
  next
    case Return
    then have "printed st \<noteq> []" "list_all is_fail_line (printed st)"
      using o by (simp_all add: in_order_def)
    moreover have "out = printed st"
      using assms Inr r Return by (simp add: validate_def)
    ultimately show ?thesis using nf by (cases out) (auto simp: list_all_iff)
  next
    case (Raise e)
    then have "list_all is_fail_line (printed st)"
      using o by (simp add: in_order_def)
    moreover have "out = printed st \<and> oc = Raised e"
      using assms Inr r Raise by (simp add: validate_def)
    ultimately show ?thesis using nf by (auto simp: list_all_iff)
  qed
qed

text \<open>
  A repository without the first dataset folder: one failure diagnostic, no success line.
\<close>

theorem pass_line_iff_no_failure_when_returned_witness:
  "validate world_empty_repo [''repo''] = ([''[FAIL] No Defects4J folder''], Returned)
   \<and> pass_line \<notin> set [''[FAIL] No Defects4J folder'']"
proof -
  have v: "validate world_empty_repo [''repo''] = ([''[FAIL] No Defects4J folder''], Returned)"
    by (simp add: world_empty_repo_def validate_def read_dataset_files_def splitlines_def
          all_datasets_def validate_dataset_def exists_def)
  have f: "is_fail_line ''[FAIL] No Defects4J folder''"
    by simp
  have "pass_line \<notin> set [''[FAIL] No Defects4J folder'']"
    using pass_line_iff_no_failure_when_returned [OF v] f by auto
  then show ?thesis using v by simp
qed

text \<open>
  Claim C9 as stated fails: when the first dataset root is a regular file, listing it
  raises \<^verbatim>\<open>NotADirectoryError\<close>; the run prints no failure diagnostic and no success
  line.
\<close>

theorem no_failure_no_success_counterexample:
  "validate world_root_file [''repo''] = ([], Raised NotADirectoryError)"
  by (simp add: world_root_file_def validate_def read_dataset_files_def splitlines_def
        all_datasets_def validate_dataset_def exists_def list_bug_candidates_def
        dir_candidates_def iterdir_def)

section \<open>A missing dataset folder\<close>

text \<open>
  Claim C4 (as the code has it). For every dataset: when the reference sets have been
  loaded and the loop over the datasets comes to a dataset (every earlier dataset having
  fallen through) whose root folder does not exist under the repository path,
  \<^verbatim>\<open>validate\<close> prints exactly one failure diagnostic for it and returns at once. The
  output of the run is what the earlier datasets printed followed by that one line; it
  is that one line alone when the flag is still set, that is, when the earlier datasets
  printed nothing. The outcome is the same whatever datasets would have followed: none
  of them, and no candidate, is looked at.
\<close>

theorem missing_root_one_diagnostic_then_return:
  assumes "read_dataset_files w = Inr rs"
    and "all_datasets = before @ d # after"
    and "validate_datasets (tree w) rs repo_path before \<lparr>printed = [], validate_pass = True\<rparr>
           = (st, Continue)"
    and "\<not> exists (tree w) (repo_path @ [dataset_value d])"
  shows "validate w repo_path =
           (printed st @ [''[FAIL] No '' @ dataset_value d @ '' folder''], Returned)
       \<and> validate_datasets (tree w) rs repo_path (d # ds) st =
           (print (''[FAIL] No '' @ dataset_value d @ '' folder'') st, Return)
       \<and> (validate_pass st \<longrightarrow>
            validate w repo_path = ([''[FAIL] No '' @ dataset_value d @ '' folder''], Returned))"
proof -
  have m: "validate_datasets (tree w) rs repo_path (d # ds) st =
             (print (''[FAIL] No '' @ dataset_value d @ '' folder'') st, Return)" for ds
    using assms(4) by (rule missing_root_returns)
  have "validate_datasets (tree w) rs repo_path all_datasets \<lparr>printed = [], validate_pass = True\<rparr>
          = validate_datasets (tree w) rs repo_path (d # after) st"
    unfolding assms(2) using assms(3) by (rule validate_datasets_append)
  then have v: "validate w repo_path =
           (printed st @ [''[FAIL] No '' @ dataset_value d @ '' folder''], Returned)"
    using assms(1) m [of after] by (simp add: validate_def)
  have "in_order (st, Continue)"
    using in_order_validate_datasets [OF consistent_start, of "tree w" rs repo_path before]
      assms(3) by simp
  then have "validate_pass st \<longrightarrow> printed st = []"
    by (simp add: in_order_def consistent_def)
  then show ?thesis using v m by simp
qed

text \<open>
  A repository whose first dataset is conformant and whose second dataset folder is
  absent: the run prints the one diagnostic and returns.
\<close>

theorem missing_root_one_diagnostic_then_return_witness:
  "validate world_no_quixbugs [''repo''] = ([''[FAIL] No QuixBugs folder''], Returned)"
proof -
  let ?fs = "tree world_no_quixbugs"
  have r: "read_dataset_files world_no_quixbugs = Inr refs_conformant"
    by (rule read_numbered_references) (simp_all add: world_no_quixbugs_def)
  have a: "all_datasets = [DEFECTS4J] @ QUIXBUGS # [BEARS, BUGSWARM]"
    by (simp add: all_datasets_def)
  have "resolve ?fs ([''repo''] @ [dataset_value DEFECTS4J]) =
          Some (folder_of candidate_tree (numbered ''Lang_'' 68))"
    by (simp add: world_no_quixbugs_def)
  then have "dataset_passes ?fs refs_conformant [''repo''] DEFECTS4J"
    by (rule defects4j_folder_passes)
  then have b: "validate_datasets ?fs refs_conformant [''repo''] [DEFECTS4J]
                  \<lparr>printed = [], validate_pass = True\<rparr>
                = (\<lparr>printed = [], validate_pass = True\<rparr>, Continue)"
    by (simp add: dataset_passes_continue)
  have m: "\<not> exists ?fs ([''repo''] @ [dataset_value QUIXBUGS])"
    by (simp add: exists_def world_no_quixbugs_def)
  show ?thesis
    using missing_root_one_diagnostic_then_return [OF r a b m] by simp
qed

text \<open>
  Claim C4 as stated fails: with the first dataset folder empty and the second absent,
  the run prints two failure diagnostics, the shortfall of the first dataset and the
  missing folder of the second.
\<close>

theorem missing_root_second_line_counterexample:
  "\<not> exists (tree world_empty_defects4j) [''repo'', ''QuixBugs'']
   \<and> validate world_empty_defects4j [''repo''] =
       ([''[FAIL] Missing 68 bugs in Defects4J'', ''[FAIL] No QuixBugs folder''], Returned)"
proof -
  have s: "str_nat 68 = ''68''"
    by (simp add: str_nat.simps)
  have r: "read_dataset_files world_empty_defects4j = Inr no_refs"
    by (simp add: read_dataset_files_def world_empty_defects4j_def no_refs_def splitlines_def)
  have c: "list_bug_candidates (tree world_empty_defects4j) no_refs [''repo'', ''Defects4J'']
             ''Defects4J'' = Inr []"
    by (simp add: list_bug_candidates_def dir_candidates_def iterdir_def
          world_empty_defects4j_def)
  have e: "exists (tree world_empty_defects4j) [''repo'', ''Defects4J'']"
    "\<not> exists (tree world_empty_defects4j) [''repo'', ''QuixBugs'']"
    by (simp_all add: exists_def world_empty_defects4j_def)
  have "validate world_empty_defects4j [''repo''] =
       ([''[FAIL] Missing 68 bugs in Defects4J'', ''[FAIL] No QuixBugs folder''], Returned)"
    by (simp add: validate_def r all_datasets_def validate_dataset_def e c
          dataset_requirements_def str_int_def s)
  then show ?thesis using e(2) by simp
qed

section \<open>The test-file checks\<close>

text \<open>
  Claim C5. For a candidate that the run reaches with the flag still set and that has
  both versions and \<^verbatim>\<open>test.txt\<close>, the four searches (Randoop and Evosuite files, in the
  buggy and in the patched version) are made independently: the group prints one line
  for each search that finds nothing, and only those. If any of the four failed,
  \<^verbatim>\<open>validate\<close> returns when the group is done: the output ends with those lines (no
  coverage diagnostic), whatever candidates and datasets would have followed.
\<close>

theorem test_file_group_reports_each_then_returns:
  assumes "validate_pass st"
    and "exists fs (folder @ [''Buggy-Version''])"
    and "exists fs (folder @ [''Patched-Version''])"
    and "exists fs (folder @ [''test.txt''])"
    and "exists fs (repo_path @ [dataset_value d])"
    and "list_bug_candidates fs rs (repo_path @ [dataset_value d]) (dataset_value d) =
           Inr (earlier @ folder # rest)"
    and "dataset_requirements d \<le> length (earlier @ folder # rest)"
    and "validate_folders fs (dataset_value d) earlier st = (st, Continue)"
  shows "printed (check_test_files fs (dataset_value d) folder st) =
           printed st @ test_file_lines fs (dataset_value d) folder
       \<and> (test_file_lines fs (dataset_value d) folder \<noteq> [] \<longrightarrow>
            validate_datasets fs rs repo_path (d # ds) st =
              (st\<lparr>printed := printed st @ test_file_lines fs (dataset_value d) folder,
                  validate_pass := False\<rparr>, Return))"
proof -
  let ?dv = "dataset_value d"
  let ?lines = "test_file_lines fs ?dv folder"
  have p: "printed (check_test_files fs ?dv folder st) = printed st @ ?lines"
    by (simp add: check_test_files_lines)
  have v: "check_versions fs ?dv folder st = st"
    using assms(2-4) by (rule check_versions_present)
  have f: "validate_folder fs ?dv folder st =
             (st\<lparr>printed := printed st @ ?lines, validate_pass := False\<rparr>, Return)"
    if "?lines \<noteq> []"
    using that assms(1) by (simp add: validate_folder_def v check_test_files_lines)
  have "validate_folders fs ?dv (earlier @ folder # rest) st =
          validate_folders fs ?dv (folder # rest) st"
    using assms(8) by (rule validate_folders_append)
  then have "validate_dataset fs rs repo_path d st = validate_folders fs ?dv (folder # rest) st"
    using assms(5-7) by (simp add: validate_dataset_def)
  then have "validate_datasets fs rs repo_path (d # ds) st =
              (st\<lparr>printed := printed st @ ?lines, validate_pass := False\<rparr>, Return)"
    if "?lines \<noteq> []"
    using f [OF that] by simp
  then show ?thesis using p by simp
qed

text \<open>
  Twenty candidates of the second dataset, the first without Randoop tests in the
  patched version and without Evosuite tests in the buggy version: two lines, then the
  run returns.
\<close>

theorem test_file_group_reports_each_then_returns_witness:
  "validate_datasets fs_untested refs_untested [''repo''] [QUIXBUGS, BEARS, BUGSWARM] start =
     (\<lparr>printed = [''[FAIL] No Randoop test files in QuixBugs-first/Patched-Version'',
                   ''[FAIL] No Evosuite test files in QuixBugs-first/Buggy-Version''],
       validate_pass = False\<rparr>, Return)"
proof -
  let ?root = "[''repo''] @ [dataset_value QUIXBUGS]"
  let ?folder = "[''repo'', ''QuixBugs'', ''first'']"
  let ?rest = "map (\<lambda>n. ?root @ [n]) (numbered ''q'' 19)"
  have res: "resolve fs_untested ?root = Some (folder_of untested_tree (''first'' # numbered ''q'' 19))"
    by (simp add: fs_untested_def)
  have p: "validate_pass start"
    by (simp add: start_def)
  have e: "exists fs_untested (?folder @ [''Buggy-Version''])"
    "exists fs_untested (?folder @ [''Patched-Version''])"
    "exists fs_untested (?folder @ [''test.txt''])"
    by (simp_all add: exists_def fs_untested_def folder_of_def untested_tree_def)
  have x: "exists fs_untested ?root"
    using res by (simp add: exists_def)
  have "dir_candidates fs_untested ?root (\<lambda>n. n \<in> QUIXBUGS_SET refs_untested) =
          Inr (map (\<lambda>n. ?root @ [n]) (''first'' # numbered ''q'' 19))"
    by (rule dir_candidates_folder_of [OF res [unfolded untested_tree_def]])
       (simp add: refs_untested_def)
  then have c: "list_bug_candidates fs_untested refs_untested ?root (dataset_value QUIXBUGS) =
                  Inr ([] @ ?folder # ?rest)"
    by (simp add: list_bug_candidates_def)
  have n: "dataset_requirements QUIXBUGS \<le> length ([] @ ?folder # ?rest)"
    by (simp add: dataset_requirements_def length_numbered)
  have f: "validate_folders fs_untested (dataset_value QUIXBUGS) [] start = (start, Continue)"
    by simp
  have l: "test_file_lines fs_untested ''QuixBugs'' ?folder =
             [''[FAIL] No Randoop test files in QuixBugs-first/Patched-Version'',
              ''[FAIL] No Evosuite test files in QuixBugs-first/Buggy-Version'']"
    by (simp add: test_file_lines_def find_randoop_test_files_def find_evosuite_test_files_def
          find_test_files_def os_walk_def fs_untested_def folder_of_def untested_tree_def
          fnmatch_filter_def re_fullmatch_def randoop_glob_def evosuite_glob_def name_def)
  show ?thesis
    using test_file_group_reports_each_then_returns [OF p e x c n f, of "[BEARS, BUGSWARM]"]
    by (simp add: l start_def del: validate_datasets.simps)
qed

section \<open>The shortfall diagnostic\<close>

text \<open>
  Claim C6. When a dataset has fewer candidates than its minimum, the diagnostic printed
  for it names exactly the minimum minus the number of candidates found, in decimal:
  it is the first line the dataset adds to the output, and no other number is written
  the same way.
\<close>

theorem shortfall_reports_required_minus_found:
  assumes "exists fs (repo_path @ [dataset_value d])"
    and "list_bug_candidates fs rs (repo_path @ [dataset_value d]) (dataset_value d) =
           Inr candidates"
    and "length candidates < dataset_requirements d"
  shows "(\<exists>more. printed (fst (validate_dataset fs rs repo_path d st)) =
            printed st @
            [''[FAIL] Missing '' @ str_nat (dataset_requirements d - length candidates)
               @ '' bugs in '' @ dataset_value d] @ more)
       \<and> (\<forall>k. str_nat k = str_nat (dataset_requirements d - length candidates) \<longrightarrow>
              k = dataset_requirements d - length candidates)"
proof -
  let ?line = "''[FAIL] Missing '' @ str_nat (dataset_requirements d - length candidates)
                 @ '' bugs in '' @ dataset_value d"
  have n: "nat (int (dataset_requirements d) - int (length candidates)) =
          dataset_requirements d - length candidates"
    by arith
  have "\<not> int (dataset_requirements d) - int (length candidates) < 0"
    using assms(3) by arith
  then have s: "str_int (int (dataset_requirements d) - int (length candidates)) =
          str_nat (dataset_requirements d - length candidates)"
    unfolding str_int_def n by (rule if_not_P)
  have v: "validate_dataset fs rs repo_path d st =
          validate_folders fs (dataset_value d) candidates (fail ?line st)"
    using assms by (simp add: validate_dataset_def s)
  obtain more where
    m: "printed (fst (validate_folders fs (dataset_value d) candidates (fail ?line st))) =
       printed (fail ?line st) @ more"
    using printed_validate_folders by blast
  have "printed (fst (validate_dataset fs rs repo_path d st)) = printed st @ [?line] @ more"
    unfolding v m by simp
  then have "\<exists>more. printed (fst (validate_dataset fs rs repo_path d st)) =
            printed st @ [?line] @ more"
    by (rule exI)
  moreover have "\<forall>k. str_nat k = str_nat (dataset_requirements d - length candidates) \<longrightarrow>
              k = dataset_requirements d - length candidates"
    using str_nat_inj by blast
  ultimately show ?thesis by (rule conjI)
qed

text \<open>
  Two candidates where twenty are required: the diagnostic names 18.
\<close>

theorem shortfall_reports_required_minus_found_witness:
  "\<exists>more. printed (fst (validate_dataset fs_short no_refs [''repo''] BEARS start)) =
           ''[FAIL] Missing 18 bugs in Bears'' # more"
proof -
  have e: "exists fs_short ([''repo''] @ [dataset_value BEARS])"
    by (simp add: exists_def fs_short_def)
  have c: "list_bug_candidates fs_short no_refs ([''repo''] @ [dataset_value BEARS])
             (dataset_value BEARS) =
           Inr [[''repo'', ''Bears'', ''Bears-1''], [''repo'', ''Bears'', ''Bears-2'']]"
    by (simp add: list_bug_candidates_def dir_candidates_def iterdir_def is_dir_def name_def
          startswith_def fs_short_def)
  have n: "length [[''repo'', ''Bears'', ''Bears-1''], [''repo'', ''Bears'', ''Bears-2'']]
             < dataset_requirements BEARS"
    by (simp add: dataset_requirements_def)
  have s: "str_nat 18 = ''18''"
    by (simp add: str_nat.simps)
  show ?thesis
    using shortfall_reports_required_minus_found [OF e c n, of start, THEN conjunct1]
    by (simp add: start_def dataset_requirements_def s)
qed

section \<open>The coverage diagnostics\<close>

text \<open>
  Claim C10. For a candidate that has passed the earlier checks and has a
  \<^verbatim>\<open>Coverage\<close> folder, a missing \<^verbatim>\<open>Buggy-version-Randoop\<close> and a missing
  \<^verbatim>\<open>Patched-version-Randoop\<close> subfolder end the run with the same line,
  \<^verbatim>\<open>No coverage folder for Randoop in <dataset>-<candidate>\<close>, and likewise the two
  Evosuite subfolders: the output does not tell which of the buggy and the patched
  folder is the missing one.
\<close>

theorem coverage_diagnostics_do_not_tell_versions_apart:
  assumes "validate_pass st"
    and "has_versions_and_tests fs folder"
    and "exists fs (folder @ [''Coverage''])"
  shows "((\<not> exists fs (folder @ [''Coverage'', ''Buggy-version-Randoop''])) \<or>
          (exists fs (folder @ [''Coverage'', ''Buggy-version-Randoop'']) \<and>
           exists fs (folder @ [''Coverage'', ''Buggy-version-Evosuite'']) \<and>
           \<not> exists fs (folder @ [''Coverage'', ''Patched-version-Randoop''])) \<longrightarrow>
          validate_folder fs dv folder st =
            (print (''[FAIL] No coverage folder for Randoop in '' @ dv @ ''-'' @ name folder) st,
             Return))
       \<and> (exists fs (folder @ [''Coverage'', ''Buggy-version-Randoop'']) \<and>
          ((\<not> exists fs (folder @ [''Coverage'', ''Buggy-version-Evosuite''])) \<or>
           (exists fs (folder @ [''Coverage'', ''Buggy-version-Evosuite'']) \<and>
            exists fs (folder @ [''Coverage'', ''Patched-version-Randoop'']) \<and>
            \<not> exists fs (folder @ [''Coverage'', ''Patched-version-Evosuite'']))) \<longrightarrow>
          validate_folder fs dv folder st =
            (print (''[FAIL] No coverage folder for Evosuite in '' @ dv @ ''-'' @ name folder) st,
             Return))"
proof -
  have v: "check_versions fs dv folder st = st"
    using assms(2) by (simp add: check_versions_def has_versions_and_tests_def)
  have t: "check_test_files fs dv folder st = st"
    using assms(2) by (simp add: check_test_files_def has_versions_and_tests_def)
  have "validate_folder fs dv folder st = check_coverage fs dv folder st"
    using assms(1) by (simp add: validate_folder_def v t)
  then show ?thesis
    using assms(3) by (auto simp: check_coverage_def)
qed

text \<open>
  Two repositories that differ only in which Randoop coverage folder is missing give
  the same result.
\<close>

theorem coverage_diagnostics_do_not_tell_versions_apart_witness:
  "validate_folder fs_no_buggy_randoop ''Bears'' [''Bears-1''] start =
     (\<lparr>printed = [''[FAIL] No coverage folder for Randoop in Bears-Bears-1''],
       validate_pass = True\<rparr>, Return)
   \<and> validate_folder fs_no_patched_randoop ''Bears'' [''Bears-1''] start =
     (\<lparr>printed = [''[FAIL] No coverage folder for Randoop in Bears-Bears-1''],
       validate_pass = True\<rparr>, Return)"
proof -
  have p: "validate_pass start"
    by (simp add: start_def)
  have r1: "resolve fs_no_buggy_randoop [''Bears-1''] =
              Some (candidate_with [''Buggy-version-Evosuite'', ''Patched-version-Randoop'',
                                    ''Patched-version-Evosuite'', ''Buggy-version-All'',
                                    ''Patched-version-All''])"
    by (simp add: fs_no_buggy_randoop_def)
  have r2: "resolve fs_no_patched_randoop [''Bears-1''] =
              Some (candidate_with [''Buggy-version-Randoop'', ''Buggy-version-Evosuite'',
                                    ''Patched-version-Evosuite'', ''Buggy-version-All'',
                                    ''Patched-version-All''])"
    by (simp add: fs_no_patched_randoop_def)
  have "validate_folder fs_no_buggy_randoop ''Bears'' [''Bears-1''] start =
          (print (''[FAIL] No coverage folder for Randoop in '' @ ''Bears'' @ ''-''
                    @ name [''Bears-1'']) start, Return)"
    using coverage_diagnostics_do_not_tell_versions_apart
            [OF p candidate_with_checks(1,2) [OF r1], of "''Bears''", THEN conjunct1]
      candidate_with_checks(3) [OF r1]
    by simp
  moreover have "validate_folder fs_no_patched_randoop ''Bears'' [''Bears-1''] start =
          (print (''[FAIL] No coverage folder for Randoop in '' @ ''Bears'' @ ''-''
                    @ name [''Bears-1'']) start, Return)"
    using coverage_diagnostics_do_not_tell_versions_apart
            [OF p candidate_with_checks(1,2) [OF r2], of "''Bears''", THEN conjunct1]
      candidate_with_checks(3) [OF r2]
    by simp
  ultimately show ?thesis
    by (simp add: print_def start_def name_def)
qed

section \<open>A shortfall and the candidates after it\<close>

text \<open>
  Claim C3 says that after a shortfall the per-candidate checks of the dataset are
  still performed. The code does go on to the candidates, but the flag the shortfall
  has cleared is the one tested after the version checks, so the run returns there for
  the first candidate. Here the first dataset holds two candidates: the first has both
  versions and \<^verbatim>\<open>test.txt\<close> but no generated tests, the second is empty. The run prints
  the shortfall and nothing else.
\<close>

theorem shortfall_stops_after_first_version_check:
  "validate world_shortfall [''repo''] = ([''[FAIL] Missing 66 bugs in Defects4J''], Returned)
   \<and> test_file_lines (tree world_shortfall) ''Defects4J'' [''repo'', ''Defects4J'', ''Lang_1'']
       \<noteq> []
   \<and> \<not> exists (tree world_shortfall) [''repo'', ''Defects4J'', ''Lang_2'', ''Buggy-Version'']"
proof -
  have s: "str_nat 66 = ''66''"
    by (simp add: str_nat.simps)
  have c: "list_bug_candidates (tree world_shortfall) no_refs [''repo'', ''Defects4J'']
             ''Defects4J'' =
           Inr [[''repo'', ''Defects4J'', ''Lang_1''], [''repo'', ''Defects4J'', ''Lang_2'']]"
    by (simp add: list_bug_candidates_def dir_candidates_def iterdir_def is_dir_def name_def
          re_match_def defects4j_pattern_def DEFECTS4J_CATEGORY_def is_digit_def
          world_shortfall_def)
  have r: "read_dataset_files world_shortfall = Inr no_refs"
    by (simp add: read_dataset_files_def world_shortfall_def no_refs_def splitlines_def)
  have e: "exists (tree world_shortfall) [''repo'', ''Defects4J'']"
    "exists (tree world_shortfall) [''repo'', ''Defects4J'', ''Lang_1'', ''Buggy-Version'']"
    "exists (tree world_shortfall) [''repo'', ''Defects4J'', ''Lang_1'', ''Patched-Version'']"
    "exists (tree world_shortfall) [''repo'', ''Defects4J'', ''Lang_1'', ''test.txt'']"
    by (simp_all add: exists_def world_shortfall_def)
  let ?fs = "tree world_shortfall"
  let ?st = "fail ''[FAIL] Missing 66 bugs in Defects4J'' \<lparr>printed = [], validate_pass = True\<rparr>"
  have "validate_folders ?fs ''Defects4J''
          [[''repo'', ''Defects4J'', ''Lang_1''], [''repo'', ''Defects4J'', ''Lang_2'']] ?st =
        (check_versions ?fs ''Defects4J'' [''repo'', ''Defects4J'', ''Lang_1''] ?st, Return)"
    by (rule failed_flag_returns_after_versions) simp
  moreover have "check_versions ?fs ''Defects4J'' [''repo'', ''Defects4J'', ''Lang_1''] ?st = ?st"
    using e(2-4) by (simp add: check_versions_def)
  ultimately have "validate_dataset ?fs no_refs [''repo''] DEFECTS4J
                     \<lparr>printed = [], validate_pass = True\<rparr> = (?st, Return)"
    using e(1) c
    by (simp add: validate_dataset_def dataset_requirements_def str_int_def s
          del: validate_folders.simps)
  then have "validate world_shortfall [''repo''] =
          ([''[FAIL] Missing 66 bugs in Defects4J''], Returned)"
    by (simp add: validate_def r all_datasets_def)
  moreover have "test_file_lines (tree world_shortfall) ''Defects4J''
                   [''repo'', ''Defects4J'', ''Lang_1''] \<noteq> []"
    by (simp add: test_file_lines_def find_randoop_test_files_def find_test_files_def
          os_walk_def world_shortfall_def fnmatch_filter_def)
  moreover have "\<not> exists (tree world_shortfall)
                     [''repo'', ''Defects4J'', ''Lang_2'', ''Buggy-Version'']"
    by (simp add: exists_def world_shortfall_def)
  ultimately show ?thesis by simp
qed

section \<open>Conformance as specified and the checks of the code\<close>

lemma set_any_residuals: "set (any_residuals s) = {r. \<exists>m. s = m @ r}"
proof (induction s)
  case Nil
  then show ?case by simp
next
  case (Cons c cs)
  have "{r. \<exists>m. c # cs = m @ r} = insert (c # cs) {r. \<exists>m. cs = m @ r}"
    by (auto simp: Cons_eq_append_conv)
  then show ?case using Cons by simp
qed

lemma re_fullmatch_glob:
  "re_fullmatch (RSeq (RLit pre) (RSeq RAnyStar (RLit suf))) n \<longleftrightarrow> glob_star pre suf n"
proof -
  have "re_fullmatch (RSeq (RLit pre) (RSeq RAnyStar (RLit suf))) n \<longleftrightarrow>
          (\<exists>r1\<in>set (residuals (RLit pre) n). \<exists>r2\<in>set (any_residuals r1).
              [] \<in> set (residuals (RLit suf) r2))"
    unfolding re_fullmatch_def by (simp del: residuals.simps(1))
  also have "\<dots> \<longleftrightarrow> (\<exists>r1. n = pre @ r1 \<and> (\<exists>r2. (\<exists>m. r1 = m @ r2) \<and> r2 = suf @ []))"
    unfolding set_residuals_RLit set_any_residuals by blast
  also have "\<dots> \<longleftrightarrow> glob_star pre suf n"
    unfolding glob_star_def by auto
  finally show ?thesis .
qed

lemma walk_files: "(\<Union>x\<in>set (walk p v). set (snd (snd x))) = set (files_below v)"
  by (induction p v rule: walk.induct) auto

lemma find_test_files_nonempty:
  "find_test_files pat fs p \<noteq> [] \<longleftrightarrow>
     (\<exists>x\<in>set (os_walk fs p). \<exists>f\<in>set (snd (snd x)). re_fullmatch pat f)"
proof -
  let ?g = "\<lambda>x. case x of (root, dirs, files) \<Rightarrow>
                   map (\<lambda>filename. root @ [filename]) (fnmatch_filter files pat)"
  have h: "(?g x \<noteq> []) \<longleftrightarrow> (\<exists>f\<in>set (snd (snd x)). re_fullmatch pat f)" for x
    by (cases x) (simp add: fnmatch_filter_def filter_empty_conv)
  have "find_test_files pat fs p \<noteq> [] \<longleftrightarrow> (\<exists>x\<in>set (os_walk fs p). ?g x \<noteq> [])"
    by (simp add: find_test_files_def)
  also have "\<dots> \<longleftrightarrow> (\<exists>x\<in>set (os_walk fs p). \<exists>f\<in>set (snd (snd x)). re_fullmatch pat f)"
    by (simp only: h)
  finally show ?thesis .
qed

lemma find_test_files_holds_file:
  "find_test_files pat fs p \<noteq> [] \<longleftrightarrow> holds_file (re_fullmatch pat) fs p"
proof (cases "resolve fs p")
  case None
  then show ?thesis
    by (simp add: find_test_files_nonempty os_walk_def holds_file_def)
next
  case (Some v)
  have "(\<exists>x\<in>set (walk p v). \<exists>f\<in>set (snd (snd x)). re_fullmatch pat f) \<longleftrightarrow>
        (\<exists>f\<in>(\<Union>x\<in>set (walk p v). set (snd (snd x))). re_fullmatch pat f)"
    by blast
  then show ?thesis
    using Some by (simp add: find_test_files_nonempty os_walk_def holds_file_def walk_files)
qed

lemma randoop_files_iff:
  "find_randoop_test_files fs p \<noteq> [] \<longleftrightarrow> holds_file (glob_star ''Randoop'' ''.java'') fs p"
proof -
  have "re_fullmatch randoop_glob = glob_star ''Randoop'' ''.java''"
    by (rule ext) (simp add: randoop_glob_def re_fullmatch_glob)
  then show ?thesis
    by (simp add: find_randoop_test_files_def find_test_files_holds_file)
qed

lemma evosuite_files_iff:
  "find_evosuite_test_files fs p \<noteq> [] \<longleftrightarrow> holds_file (glob_star ''Evosuite'' ''.java'') fs p"
proof -
  have "re_fullmatch evosuite_glob = glob_star ''Evosuite'' ''.java''"
    by (rule ext) (simp add: evosuite_glob_def re_fullmatch_glob)
  then show ?thesis
    by (simp add: find_evosuite_test_files_def find_test_files_holds_file)
qed

lemma conformant_candidate_iff: "conformant_candidate fs folder \<longleftrightarrow> folder_passes fs folder"
proof -
  have "exists fs (folder @ [''Coverage''])"
    if "exists fs (folder @ [''Coverage'', ''Buggy-version-All''])"
    using that exists_prefix [of fs "folder @ [''Coverage'']" "[''Buggy-version-All'']"] by simp
  then show ?thesis
    by (auto simp: conformant_candidate_def folder_passes_def has_versions_and_tests_def
          randoop_files_iff evosuite_files_iff coverage_subfolders_def)
qed

lemma startswith_iff: "startswith n l \<longleftrightarrow> (\<exists>rest. n = l @ rest)"
  using strip_prefix_None [of l n] by (auto simp: startswith_def)

lemma claimed_minimum_eq: "claimed_minimum d = dataset_requirements d"
  by (simp add: claimed_minimum_def dataset_requirements_def)

lemma dir_candidates_Dir:
  assumes "resolve fs root = Some (Dir es)"
  shows "dir_candidates fs root rule =
           Inr (map (\<lambda>e. root @ [fst e])
                  (filter (\<lambda>e. is_dir fs (root @ [fst e]) \<and> rule (fst e)) es))"
  using assms by (simp add: dir_candidates_def iterdir_def filter_map comp_def name_def)

lemma list_bug_candidates_enumerates:
  assumes "resolve fs (repo_path @ [dataset_value d]) = Some (Dir es)"
  shows "list_bug_candidates fs rs (repo_path @ [dataset_value d]) (dataset_value d) =
           Inr (candidates_of category_and_digit fs rs repo_path d)"
proof -
  have m: "re_match defects4j_pattern n \<longleftrightarrow> category_and_digit n" for n
    unfolding re_match_defects4j category_and_digit_def by auto
  show ?thesis
    using assms
    by (cases d)
       (simp_all add: list_bug_candidates_def dir_candidates_Dir candidates_of_def
          candidate_name_def m startswith_iff)
qed

lemma candidates_need_directory:
  assumes "candidates_of category fs rs repo_path d \<noteq> []"
  shows "\<exists>es. resolve fs (repo_path @ [dataset_value d]) = Some (Dir es)"
  using assms by (auto simp: candidates_of_def split: option.splits node.splits)

lemma list_bug_candidates_needs_directory:
  assumes "list_bug_candidates fs rs (repo_path @ [dataset_value d]) (dataset_value d) = Inr cs"
  shows "\<exists>es. resolve fs (repo_path @ [dataset_value d]) = Some (Dir es)"
proof (cases "resolve fs (repo_path @ [dataset_value d])")
  case None
  then show ?thesis
    using assms by (cases d) (simp_all add: list_bug_candidates_def dir_candidates_def iterdir_def)
next
  case (Some v)
  then show ?thesis
    using assms
    by (cases v; cases d)
       (simp_all add: list_bug_candidates_def dir_candidates_def iterdir_def)
qed

lemma conformant_dataset_iff:
  "conformant_dataset category_and_digit fs rs repo_path d \<longleftrightarrow> dataset_passes fs rs repo_path d"
proof
  let ?cs = "candidates_of category_and_digit fs rs repo_path d"
  assume a: "conformant_dataset category_and_digit fs rs repo_path d"
  then have c: "exists fs (repo_path @ [dataset_value d])" "claimed_minimum d \<le> length ?cs"
    "\<forall>c\<in>set ?cs. conformant_candidate fs c"
    by (simp_all add: conformant_dataset_def)
  have "0 < claimed_minimum d"
    by (cases d) (simp_all add: claimed_minimum_def)
  then have "?cs \<noteq> []" using c(2) by auto
  then obtain es where "resolve fs (repo_path @ [dataset_value d]) = Some (Dir es)"
    using candidates_need_directory by blast
  then have "list_bug_candidates fs rs (repo_path @ [dataset_value d]) (dataset_value d) =
               Inr ?cs"
    by (rule list_bug_candidates_enumerates)
  then show "dataset_passes fs rs repo_path d"
    using c by (simp add: dataset_passes_def claimed_minimum_eq list_all_iff
          conformant_candidate_iff)
next
  let ?cs = "candidates_of category_and_digit fs rs repo_path d"
  assume a: "dataset_passes fs rs repo_path d"
  then obtain cs where
    l: "list_bug_candidates fs rs (repo_path @ [dataset_value d]) (dataset_value d) = Inr cs"
    and c: "exists fs (repo_path @ [dataset_value d])" "dataset_requirements d \<le> length cs"
      "list_all (folder_passes fs) cs"
    by (auto simp: dataset_passes_def split: sum.splits)
  obtain es where "resolve fs (repo_path @ [dataset_value d]) = Some (Dir es)"
    using list_bug_candidates_needs_directory [OF l] by blast
  then have "cs = ?cs"
    using list_bug_candidates_enumerates [of fs repo_path d es rs] l by simp
  then show "conformant_dataset category_and_digit fs rs repo_path d"
    using c by (simp add: conformant_dataset_def claimed_minimum_eq list_all_iff
          conformant_candidate_iff)
qed

lemma conformant_repository_iff:
  "conformant_repository category_and_digit fs rs repo_path \<longleftrightarrow> all_pass fs rs repo_path"
  by (simp add: conformant_repository_def all_pass_def list_all_iff conformant_dataset_iff)

lemma candidates_of_other_datasets:
  "d \<noteq> DEFECTS4J \<Longrightarrow>
     candidates_of category fs rs repo_path d = candidates_of category' fs rs repo_path d"
proof -
  assume "d \<noteq> DEFECTS4J"
  then have "candidate_name category rs d = candidate_name category' rs d"
    by (cases d) (simp_all add: candidate_name_def fun_eq_iff)
  then show ?thesis
    unfolding candidates_of_def by (simp split: option.splits node.splits)
qed

lemma conformant_dataset_other_datasets:
  "d \<noteq> DEFECTS4J \<Longrightarrow>
     conformant_dataset category fs rs repo_path d =
     conformant_dataset category' fs rs repo_path d"
  using candidates_of_other_datasets [of d category fs rs repo_path category']
  by (simp add: conformant_dataset_def)

section \<open>A conformant repository passes\<close>

lemma numbered_lang_not_stray: "''Lang_42abc'' \<notin> set (numbered ''Lang_'' k)"
proof
  assume "''Lang_42abc'' \<in> set (numbered ''Lang_'' k)"
  then obtain i where "''Lang_42abc'' = ''Lang_'' @ str_nat i" using numbered_elem by blast
  then have "str_nat i = ''42abc''" by simp
  then have "list_all is_digit ''42abc''" using str_nat_digits [of i] by simp
  then show False by (simp add: is_digit_def)
qed

lemma stray_not_category_and_number: "\<not> category_and_number ''Lang_42abc''"
proof -
  have "\<not> re_fullmatch defects4j_pattern ''Lang_42abc''"
    by (simp add: re_fullmatch_def defects4j_pattern_def DEFECTS4J_CATEGORY_def is_digit_def)
  then show ?thesis
    unfolding re_fullmatch_defects4j category_and_number_def by simp
qed

lemma stray_category_and_digit: "category_and_digit ''Lang_42abc''"
proof -
  have "re_match defects4j_pattern ''Lang_42abc''"
    by (simp add: re_match_def defects4j_pattern_def DEFECTS4J_CATEGORY_def is_digit_def)
  then show ?thesis
    unfolding re_match_defects4j category_and_digit_def by auto
qed

lemma lang_names_category_and_number:
  "n \<in> set (numbered ''Lang_'' k) \<Longrightarrow> category_and_number n"
proof -
  assume "n \<in> set (numbered ''Lang_'' k)"
  then obtain i where n: "n = ''Lang_'' @ str_nat i" using numbered_elem by blast
  have "''Lang'' \<in> set DEFECTS4J_CATEGORY" by (simp add: DEFECTS4J_CATEGORY_def)
  moreover have "str_nat i \<noteq> [] \<and> list_all is_digit (str_nat i) \<and> n = ''Lang'' @ ''_'' @ str_nat i"
    using n str_nat_digits [of i] by simp
  ultimately show ?thesis
    unfolding category_and_number_def by blast
qed

lemma stray_root:
  "resolve (tree world_stray) ([''repo''] @ [dataset_value DEFECTS4J]) =
     Some (Dir ((''Lang_42abc'', Dir [])
                # map (\<lambda>n. (n, candidate_tree)) (numbered ''Lang_'' 68)))"
  by (simp add: world_stray_def)

lemma stray_entry:
  assumes "n \<in> set (numbered ''Lang_'' 68)"
  shows "resolve (tree world_stray) ([''repo''] @ [dataset_value DEFECTS4J] @ [n]) =
           Some candidate_tree"
proof -
  have "n \<noteq> ''Lang_42abc''" using assms numbered_lang_not_stray by blast
  then show ?thesis
    using stray_root assms resolve_append [of "tree world_stray" "[''repo'', ''Defects4J'']" "[n]"]
    by (simp add: map_of_constant)
qed

lemma stray_candidates_as_claimed:
  "candidates_of category_and_number (tree world_stray) rs [''repo''] DEFECTS4J =
     map (\<lambda>n. [''repo'', ''Defects4J'', n]) (numbered ''Lang_'' 68)"
proof -
  let ?P = "\<lambda>e. is_dir (tree world_stray) ([''repo''] @ [dataset_value DEFECTS4J, fst e]) \<and>
                 candidate_name category_and_number rs DEFECTS4J (fst e)"
  have "?P (n, candidate_tree)" if "n \<in> set (numbered ''Lang_'' 68)" for n
    using stray_entry [OF that] lang_names_category_and_number [OF that]
    by (simp add: is_dir_def candidate_name_def candidate_tree_def candidate_with_def)
  then have "filter ?P (map (\<lambda>n. (n, candidate_tree)) (numbered ''Lang_'' 68)) =
               map (\<lambda>n. (n, candidate_tree)) (numbered ''Lang_'' 68)"
    by (simp add: filter_id_conv)
  moreover have "\<not> ?P (''Lang_42abc'', Dir [])"
    using stray_not_category_and_number by (simp add: candidate_name_def)
  ultimately show ?thesis
    using stray_root by (simp add: candidates_of_def comp_def)
qed

lemma stray_candidates_as_enumerated:
  "candidates_of category_and_digit (tree world_stray) rs [''repo''] DEFECTS4J =
     [''repo'', ''Defects4J'', ''Lang_42abc'']
       # map (\<lambda>n. [''repo'', ''Defects4J'', n]) (numbered ''Lang_'' 68)"
proof -
  let ?P = "\<lambda>e. is_dir (tree world_stray) ([''repo''] @ [dataset_value DEFECTS4J, fst e]) \<and>
                 candidate_name category_and_digit rs DEFECTS4J (fst e)"
  have "category_and_digit n" if "n \<in> set (numbered ''Lang_'' 68)" for n
    using lang_names_match [of 68] that
    unfolding re_match_defects4j category_and_digit_def by blast
  then have "?P (n, candidate_tree)" if "n \<in> set (numbered ''Lang_'' 68)" for n
    using stray_entry [OF that] that
    by (simp add: is_dir_def candidate_name_def candidate_tree_def candidate_with_def)
  then have "filter ?P (map (\<lambda>n. (n, candidate_tree)) (numbered ''Lang_'' 68)) =
               map (\<lambda>n. (n, candidate_tree)) (numbered ''Lang_'' 68)"
    by (simp add: filter_id_conv)
  moreover have "?P (''Lang_42abc'', Dir [])"
    using stray_category_and_digit
    by (simp add: candidate_name_def is_dir_def world_stray_def)
  ultimately show ?thesis
    using stray_root by (simp add: candidates_of_def comp_def)
qed

lemma world_stray_conformant_as_claimed:
  "conformant_repository category_and_number (tree world_stray) refs_conformant [''repo'']"
proof -
  let ?fs = "tree world_stray"
  have r: "resolve ?fs ([''repo''] @ [dataset_value QUIXBUGS]) =
       Some (folder_of candidate_tree (numbered ''q'' 20))"
    "resolve ?fs ([''repo''] @ [dataset_value BEARS]) =
       Some (folder_of candidate_tree (numbered ''Bears-'' 20))"
    "resolve ?fs ([''repo''] @ [dataset_value BUGSWARM]) =
       Some (folder_of candidate_tree (numbered ''tag-'' 20))"
    by (simp_all add: world_stray_def)
  have o: "conformant_dataset category_and_number ?fs refs_conformant [''repo''] d"
    if "dataset_passes ?fs refs_conformant [''repo''] d" "d \<noteq> DEFECTS4J" for d
    using that conformant_dataset_iff [of ?fs refs_conformant "[''repo'']" d]
      conformant_dataset_other_datasets [OF that(2), of category_and_number ?fs refs_conformant
        "[''repo'']" category_and_digit]
    by simp
  have "conformant_candidate ?fs c"
    if "c \<in> set (candidates_of category_and_number ?fs refs_conformant [''repo''] DEFECTS4J)" for c
  proof -
    have "c \<in> set (map (\<lambda>n. [''repo'', ''Defects4J'', n]) (numbered ''Lang_'' 68))"
      using that by (simp only: stray_candidates_as_claimed)
    then obtain n where n: "n \<in> set (numbered ''Lang_'' 68)" "c = [''repo'', ''Defects4J'', n]"
      by (auto simp: image_iff)
    have "folder_passes ?fs c"
      using stray_entry [OF n(1)] n(2) candidate_tree_passes [of ?fs c] by simp
    then show ?thesis by (simp add: conformant_candidate_iff)
  qed
  moreover have "exists ?fs ([''repo''] @ [dataset_value DEFECTS4J])"
    using stray_root by (simp add: exists_def)
  ultimately have d: "conformant_dataset category_and_number ?fs refs_conformant [''repo''] DEFECTS4J"
    by (simp add: conformant_dataset_def stray_candidates_as_claimed claimed_minimum_def
          length_numbered)
  show ?thesis
    using d o [OF quixbugs_folder_passes [OF r(1)]] o [OF bears_folder_passes [OF r(2)]]
      o [OF bugswarm_folder_passes [OF r(3)]]
    by (simp add: conformant_repository_def all_datasets_def)
qed

lemma world_stray_output:
  "validate world_stray [''repo''] =
     ([''[FAIL] Incomplete versions in Defects4J-Lang_42abc'',
       ''[FAIL] No failed test file in Defects4J-Lang_42abc''], Returned)"
proof -
  let ?fs = "tree world_stray"
  let ?stray = "[''repo'', ''Defects4J'', ''Lang_42abc'']"
  let ?rest = "map (\<lambda>n. [''repo'', ''Defects4J'', n]) (numbered ''Lang_'' 68)"
  let ?start = "\<lparr>printed = [], validate_pass = True\<rparr>"
  have r: "read_dataset_files world_stray = Inr refs_conformant"
    by (rule read_numbered_references) (simp_all add: world_stray_def)
  have e: "exists ?fs ([''repo''] @ [dataset_value DEFECTS4J])"
    using stray_root by (simp add: exists_def)
  have c: "list_bug_candidates ?fs refs_conformant ([''repo''] @ [dataset_value DEFECTS4J])
             (dataset_value DEFECTS4J) = Inr (?stray # ?rest)"
    using list_bug_candidates_enumerates [OF stray_root, of refs_conformant]
    by (simp add: stray_candidates_as_enumerated)
  have m: "\<not> exists ?fs (?stray @ [''Buggy-Version''])" "\<not> exists ?fs (?stray @ [''test.txt''])"
    by (simp_all add: exists_def world_stray_def)
  have "validate_folder ?fs ''Defects4J'' ?stray ?start =
          (\<lparr>printed = [''[FAIL] Incomplete versions in Defects4J-Lang_42abc'',
                        ''[FAIL] No failed test file in Defects4J-Lang_42abc''],
            validate_pass = False\<rparr>, Return)"
    using m by (simp add: validate_folder_def check_versions_def fail_def print_def name_def)
  then have "validate_folders ?fs ''Defects4J'' (?stray # ?rest) ?start =
          (\<lparr>printed = [''[FAIL] Incomplete versions in Defects4J-Lang_42abc'',
                        ''[FAIL] No failed test file in Defects4J-Lang_42abc''],
            validate_pass = False\<rparr>, Return)"
    by simp
  then have "validate_dataset ?fs refs_conformant [''repo''] DEFECTS4J ?start =
          (\<lparr>printed = [''[FAIL] Incomplete versions in Defects4J-Lang_42abc'',
                        ''[FAIL] No failed test file in Defects4J-Lang_42abc''],
            validate_pass = False\<rparr>, Return)"
    using e c
    by (simp add: validate_dataset_def dataset_requirements_def length_numbered
          del: validate_folders.simps)
  then show ?thesis
    by (simp add: validate_def r all_datasets_def)
qed

text \<open>
  Claim C2 (as the code has it). For every repository that is fully conformant, the
  candidates of the category-based dataset being the directories whose names begin
  with a category, an underscore and a digit (each of the four dataset roots exists,
  each dataset has at least its minimum of 68, 20, 20 and 20 candidates, and every
  candidate has both versions, \<^verbatim>\<open>test.txt\<close>, a \<^verbatim>\<open>Randoop*.java\<close> and an \<^verbatim>\<open>Evosuite*.java\<close>
  file in each version subtree and the six coverage subfolders), \<^verbatim>\<open>validate\<close>, having
  loaded the reference sets, prints exactly one line, the success line, and returns.
\<close>

theorem conformant_repository_passes:
  assumes "read_dataset_files w = Inr rs"
    and "conformant_repository category_and_digit (tree w) rs repo_path"
  shows "validate w repo_path = ([''[PASS] Validation pass''], Returned)"
  using assms(1) assms(2) [unfolded conformant_repository_iff]
  by (rule all_pass_prints_pass_line)

text \<open>
  A repository with 68, 20, 20 and 20 complete candidates, whose names are those the
  two reference files list, is fully conformant and passes.
\<close>

theorem conformant_repository_passes_witness:
  "read_dataset_files world_conformant = Inr refs_conformant
   \<and> conformant_repository category_and_digit (tree world_conformant) refs_conformant [''repo'']
   \<and> validate world_conformant [''repo''] = ([''[PASS] Validation pass''], Returned)"
proof -
  have r: "read_dataset_files world_conformant = Inr refs_conformant"
    by (rule read_numbered_references) (simp_all add: world_conformant_def)
  have c: "conformant_repository category_and_digit (tree world_conformant) refs_conformant
             [''repo'']"
    using world_conformant_all_pass by (simp add: conformant_repository_iff)
  show ?thesis
    using r c conformant_repository_passes [OF r c] by simp
qed

text \<open>
  Claim C2 as stated fails. With the candidates of the category-based dataset as the
  specification gives them (the whole name a category, an underscore and digits), a repository
  of 68, 20, 20 and 20 complete candidates stays fully conformant when an empty
  directory \<^verbatim>\<open>Lang_42abc\<close> is added to the first dataset. The code takes that directory
  for a candidate and reports it.
\<close>

theorem stray_directory_counterexample:
  "read_dataset_files world_stray = Inr refs_conformant
   \<and> conformant_repository category_and_number (tree world_stray) refs_conformant [''repo'']
   \<and> validate world_stray [''repo''] =
       ([''[FAIL] Incomplete versions in Defects4J-Lang_42abc'',
         ''[FAIL] No failed test file in Defects4J-Lang_42abc''], Returned)"
proof -
  have "read_dataset_files world_stray = Inr refs_conformant"
    by (rule read_numbered_references) (simp_all add: world_stray_def)
  then show ?thesis
    using world_stray_conformant_as_claimed world_stray_output by simp
qed

end
